theory Spec2Isabelle
  imports Complex_Main "HOL-Library.Word"
begin

unbundle bit_operations_syntax

section \<open>Numbers and errors\<close>

text \<open>
  The renderer is TypeScript; its numbers are doubles. Tile ids, map coordinates, slot
  numbers and counters only ever hold integers and are modelled as \<open>int\<close>; pixel
  quantities (tile sizes, origins, texture coordinates) are modelled as \<open>real\<close>, that is
  with exact arithmetic in place of rounding. The animation clock, which accumulates
  elapsed time, rounds every operation to a double (\<open>fl\<close> below). Division by a zero
  tile size or interval (Infinity or NaN in the source) is outside the model: the theorems
  that divide assume the divisor is not zero.
\<close>

datatype error = TypeError | ReassignError

type_synonym 'a outcome = "error option \<times> 'a"

text \<open>
  A method that mutates an object and may throw returns the object as it is when the
  method ends, together with the exception if one was thrown: a throw keeps every
  mutation made before it.
\<close>

definition andThen :: "'a outcome \<Rightarrow> ('a \<Rightarrow> 'a outcome) \<Rightarrow> 'a outcome" where
  "andThen r f = (case fst r of None \<Rightarrow> f (snd r) | Some e \<Rightarrow> r)"

primrec forEach :: "'b list \<Rightarrow> ('b \<Rightarrow> 'a \<Rightarrow> 'a outcome) \<Rightarrow> 'a \<Rightarrow> 'a outcome" where
  "forEach [] f s = (None, s)"
| "forEach (x # xs) f s = andThen (f x s) (forEach xs f)"

definition js_rem :: "int \<Rightarrow> int \<Rightarrow> int" where
  \<comment> \<open>the operator \<open>%\<close> on integers: the result has the sign of the dividend\<close>
  "js_rem a b = sgn a * (\<bar>a\<bar> mod \<bar>b\<bar>)"

definition numberMod :: "int \<Rightarrow> int \<Rightarrow> int" where
  "numberMod v n = js_rem (js_rem v n + n) n"

definition toInt32 :: "int \<Rightarrow> int" where
  \<comment> \<open>the idiom \<open>n | 0\<close>\<close>
  "toInt32 n = sint (word_of_int n :: 32 word)"

definition read_field :: "real option \<Rightarrow> error + real" where
  \<comment> \<open>\<open>t.f.x\<close>: a TypeError when the object \<open>t\<close> has no \<open>f\<close>\<close>
  "read_field d = (case d of None \<Rightarrow> Inl TypeError | Some w \<Rightarrow> Inr w)"

definition falsy_or :: "real option \<Rightarrow> real option \<Rightarrow> error + real" where
  \<comment> \<open>\<open>a || t.f.x\<close> for a number or undefined \<open>a\<close>: the field is read only when \<open>a\<close> is
      falsy\<close>
  "falsy_or a d =
     (case a of None \<Rightarrow> read_field d | Some v \<Rightarrow> if v = 0 then read_field d else Inr v)"

definition nth_opt :: "'a list \<Rightarrow> int \<Rightarrow> 'a option" where
  \<comment> \<open>array indexing: undefined outside the array\<close>
  "nth_opt xs i = (if 0 \<le> i \<and> nat i < length xs then Some (xs ! nat i) else None)"

definition DefaultFps :: real where
  "DefaultFps = 60"

subsection \<open>Doubles\<close>

text \<open>
  \<open>fl x\<close> is the double nearest to the real \<open>x\<close>: a significand of 53 bits, a tie
  going to the even significand, and below \<open>2 powi (- 1022)\<close> the subnormal numbers, the
  multiples of \<open>2 powi (- 1074)\<close>. The exponent is not bounded above: Infinity and NaN are
  outside the model, which is the code's arithmetic below \<open>2 powi 1023\<close>.
\<close>

definition rne :: "real \<Rightarrow> int" where
  \<comment> \<open>the nearest integer, a tie going to the even one\<close>
  "rne y =
     (let f = \<lfloor>y\<rfloor>; d = y - of_int f
      in if d < 1 / 2 then f else if d > 1 / 2 then f + 1 else if even f then f else f + 1)"

definition binade :: "real \<Rightarrow> int" where
  \<comment> \<open>the exponent e with \<open>2 powi e \<le> \<bar>x\<bar> < 2 powi (e + 1)\<close>\<close>
  "binade x = \<lfloor>log 2 \<bar>x\<bar>\<rfloor>"

definition ulp :: "real \<Rightarrow> real" where
  \<comment> \<open>the spacing of the doubles in the binade of x\<close>
  "ulp x = 2 powi (max (binade x) (- 1022) - 52)"

definition fl :: "real \<Rightarrow> real" where
  "fl x = (if x = 0 then 0 else of_int (rne (x / ulp x)) * ulp x)"

section \<open>The tile batch buffer (class Tilemap of the tilemap package)\<close>

text \<open>
  A texture is the record of the fields that the code reads from it. \<open>source\<close> is the
  identity of its image resource; \<open>tex_frame\<close> holds \<open>frame.x\<close> and \<open>frame.y\<close>, \<open>tex_orig\<close>
  holds \<open>orig.width\<close> and \<open>orig.height\<close>. A texture has both. The source of a texture,
  which the renderer hands to its layers in place of the texture, is an object with
  neither, and is the record in which both are \<open>None\<close>.
\<close>

record Texture =
  source :: nat
  tex_frame :: "(real \<times> real) option"
  tex_orig :: "(real \<times> real) option"
  source_width :: real
  source_height :: real

definition texture_source :: "Texture \<Rightarrow> Texture" where
  \<comment> \<open>\<open>texture.source\<close>\<close>
  "texture_source t = t\<lparr>tex_frame := None, tex_orig := None\<rparr>"

record PointStruct =
  pt_u :: real
  pt_v :: real
  pt_x :: real
  pt_y :: real
  pt_tileWidth :: real
  pt_tileHeight :: real
  pt_rotate :: real
  pt_animX :: int
  pt_animY :: int
  pt_animCountX :: int
  pt_animCountY :: int
  pt_animDivisor :: real
  pt_alpha :: real

record TileOptions =
  opt_u :: "real option"
  opt_v :: "real option"
  opt_tileWidth :: "real option"
  opt_tileHeight :: "real option"
  opt_animX :: "int option"
  opt_animY :: "int option"
  opt_rotate :: "real option"
  opt_animCountX :: "int option"
  opt_animCountY :: "int option"
  opt_animDivisor :: "real option"
  opt_alpha :: "real option"

definition no_options :: TileOptions where
  "no_options = \<lparr>opt_u = None, opt_v = None, opt_tileWidth = None, opt_tileHeight = None,
     opt_animX = None, opt_animY = None, opt_rotate = None, opt_animCountX = None,
     opt_animCountY = None, opt_animDivisor = None, opt_alpha = None\<rparr>"

text \<open>
  The bounding box and the change counters of the display library are not modelled: no
  modelled field is computed from them.
\<close>

record Tilemap =
  pointsBuf :: "PointStruct list"
  baseTexture :: Texture
  hasAnimatedTile :: bool
  tileAnim :: "real \<times> real"
  didTilemapUpdate :: bool

definition Tilemap_new :: "Texture \<Rightarrow> Tilemap" where
  "Tilemap_new tex = \<lparr>pointsBuf = [], baseTexture = tex, hasAnimatedTile = False,
     tileAnim = (0, 0), didTilemapUpdate = True\<rparr>"

definition Tilemap_clear :: "Tilemap \<Rightarrow> Tilemap" where
  "Tilemap_clear tm = tm\<lparr>pointsBuf := [], hasAnimatedTile := False, didTilemapUpdate := True\<rparr>"

definition make_point :: "Texture \<Rightarrow> real \<Rightarrow> real \<Rightarrow> TileOptions \<Rightarrow> error + PointStruct" where
  \<comment> \<open>the command that the tile method pushes; the four assignments
      \<open>options.u = options.u || texture.frame.x\<close> and so on come first and may throw\<close>
  "make_point texture x y options =
     (case falsy_or (opt_u options) (map_option fst (tex_frame texture)) of
        Inl e \<Rightarrow> Inl e
      | Inr u \<Rightarrow>
     (case falsy_or (opt_v options) (map_option snd (tex_frame texture)) of
        Inl e \<Rightarrow> Inl e
      | Inr v \<Rightarrow>
     (case falsy_or (opt_tileWidth options) (map_option fst (tex_orig texture)) of
        Inl e \<Rightarrow> Inl e
      | Inr tw \<Rightarrow>
     (case falsy_or (opt_tileHeight options) (map_option snd (tex_orig texture)) of
        Inl e \<Rightarrow> Inl e
      | Inr th \<Rightarrow>
          Inr \<lparr>pt_u = u, pt_v = v, pt_x = x, pt_y = y, pt_tileWidth = tw, pt_tileHeight = th,
               pt_rotate = (case opt_rotate options of None \<Rightarrow> 0 | Some r \<Rightarrow> r),
               pt_animX = toInt32 (case opt_animX options of None \<Rightarrow> 0 | Some a \<Rightarrow> a),
               pt_animY = toInt32 (case opt_animY options of None \<Rightarrow> 0 | Some a \<Rightarrow> a),
               pt_animCountX = (case opt_animCountX options of None \<Rightarrow> 1024 | Some c \<Rightarrow> c),
               pt_animCountY = (case opt_animCountY options of None \<Rightarrow> 1024 | Some c \<Rightarrow> c),
               pt_animDivisor = (case opt_animDivisor options of None \<Rightarrow> 1 | Some d \<Rightarrow> d),
               pt_alpha = (case opt_alpha options of None \<Rightarrow> 1 | Some a \<Rightarrow> a)\<rparr>))))"

definition Tilemap_tile ::
  "Texture option \<Rightarrow> real \<Rightarrow> real \<Rightarrow> TileOptions \<Rightarrow> Tilemap \<Rightarrow> Tilemap outcome" where
  "Tilemap_tile texture x y options tm =
     (let tex = (case texture of None \<Rightarrow> baseTexture tm | Some t \<Rightarrow> t);
          animX = (case opt_animX options of None \<Rightarrow> 0 | Some a \<Rightarrow> a);
          animY = (case opt_animY options of None \<Rightarrow> 0 | Some a \<Rightarrow> a)
      in case make_point tex x y options of
           Inl e \<Rightarrow> (Some e, tm)
         | Inr point \<Rightarrow>
             (None, tm\<lparr>hasAnimatedTile := (hasAnimatedTile tm \<or> animX > 0 \<or> animY > 0),
                       pointsBuf := pointsBuf tm @ [point],
                       didTilemapUpdate := True\<rparr>))"

definition Tilemap_setTileAnim :: "real \<times> real \<Rightarrow> Tilemap \<Rightarrow> Tilemap" where
  "Tilemap_setTileAnim v tm =
     (if fst (tileAnim tm) \<noteq> fst v \<or> snd (tileAnim tm) \<noteq> snd v
      then (if hasAnimatedTile tm then tm\<lparr>tileAnim := v, didTilemapUpdate := True\<rparr>
            else tm\<lparr>tileAnim := v\<rparr>)
      else tm)"

subsection \<open>Typed arrays and the geometry build\<close>

text \<open>
  A typed array is a view (buffer, offset, length) of a backing buffer; the heap maps
  buffer identities to their contents, so that reusing storage and allocating it anew are
  different results. \<open>Float32Array\<close> elements are reals here (no rounding to single
  precision), \<open>Uint32Array\<close> elements are 32-bit words. A write outside the view is
  ignored, as typed arrays do.
\<close>

record View =
  v_buf :: nat
  v_off :: nat
  v_len :: nat

record Heap =
  f32 :: "nat \<Rightarrow> real list"
  u32 :: "nat \<Rightarrow> 32 word list"
  next_buf :: nat

record MeshGeometry =
  positions :: View
  uvs :: View
  indices :: View

definition new_Float32Array :: "nat \<Rightarrow> Heap \<Rightarrow> View \<times> Heap" where
  "new_Float32Array k h =
     (\<lparr>v_buf = next_buf h, v_off = 0, v_len = k\<rparr>,
      h\<lparr>f32 := (f32 h)(next_buf h := replicate k 0), next_buf := Suc (next_buf h)\<rparr>)"

definition new_Uint32Array :: "nat \<Rightarrow> Heap \<Rightarrow> View \<times> Heap" where
  "new_Uint32Array k h =
     (\<lparr>v_buf = next_buf h, v_off = 0, v_len = k\<rparr>,
      h\<lparr>u32 := (u32 h)(next_buf h := replicate k 0), next_buf := Suc (next_buf h)\<rparr>)"

definition subarray :: "View \<Rightarrow> nat \<Rightarrow> nat \<Rightarrow> View" where
  \<comment> \<open>begin and end are clamped to the view's length\<close>
  "subarray a b e =
     (let b' = min b (v_len a); e' = min e (v_len a)
      in \<lparr>v_buf = v_buf a, v_off = v_off a + b', v_len = e' - b'\<rparr>)"

definition set_f32 :: "View \<Rightarrow> nat \<Rightarrow> real \<Rightarrow> Heap \<Rightarrow> Heap" where
  "set_f32 a j x h =
     (if j < v_len a then h\<lparr>f32 := (f32 h)(v_buf a := (f32 h (v_buf a))[v_off a + j := x])\<rparr>
      else h)"

definition set_u32 :: "View \<Rightarrow> nat \<Rightarrow> nat \<Rightarrow> Heap \<Rightarrow> Heap" where
  "set_u32 a j x h =
     (if j < v_len a
      then h\<lparr>u32 := (u32 h)(v_buf a := (u32 h (v_buf a))[v_off a + j := of_nat x])\<rparr>
      else h)"

definition f32_contents :: "Heap \<Rightarrow> View \<Rightarrow> real list" where
  "f32_contents h a = take (v_len a) (drop (v_off a) (f32 h (v_buf a)))"

definition u32_contents :: "Heap \<Rightarrow> View \<Rightarrow> 32 word list" where
  "u32_contents h a = take (v_len a) (drop (v_off a) (u32 h (v_buf a)))"

definition new_MeshGeometry :: "nat \<Rightarrow> Heap \<Rightarrow> MeshGeometry \<times> Heap" where
  "new_MeshGeometry n h =
     (let (p, h1) = new_Float32Array (n * 8) h;
          (t, h2) = new_Float32Array (n * 8) h1;
          (i, h3) = new_Uint32Array (n * 6) h2
      in (\<lparr>positions = p, uvs = t, indices = i\<rparr>, h3))"

definition animOffset :: "Tilemap \<Rightarrow> PointStruct \<Rightarrow> real \<times> real" where
  "animOffset tm point =
     (let currentFrame0 = \<lfloor>fst (tileAnim tm) / pt_animDivisor point + 0.5\<rfloor>;
          currentFrame1 = \<lfloor>snd (tileAnim tm) / pt_animDivisor point + 0.5\<rfloor>
      in (if pt_animX point \<noteq> 0
          then of_int (pt_animX point * js_rem currentFrame0 (pt_animCountX point)) else 0,
          if pt_animY point \<noteq> 0
          then of_int (pt_animY point * js_rem currentFrame1 (pt_animCountY point)) else 0))"

definition write_quad :: "Tilemap \<Rightarrow> MeshGeometry \<Rightarrow> nat \<Rightarrow> PointStruct \<Rightarrow> Heap \<Rightarrow> Heap" where
  "write_quad tm g i point h =
     (let pntBase = i * 4;
          base = pntBase * 2;
          indBase = i * 6;
          ps = positions g;
          ts = uvs g;
          ix = indices g;
          u = pt_u point + fst (animOffset tm point);
          v = pt_v point + snd (animOffset tm point);
          sw = source_width (baseTexture tm);
          sh = source_height (baseTexture tm);
          h = set_f32 ps (base + 0) (pt_x point) h;
          h = set_f32 ps (base + 1) (pt_y point) h;
          h = set_f32 ps (base + 2) (pt_x point + pt_tileWidth point) h;
          h = set_f32 ps (base + 3) (pt_y point) h;
          h = set_f32 ps (base + 4) (pt_x point + pt_tileWidth point) h;
          h = set_f32 ps (base + 5) (pt_y point + pt_tileHeight point) h;
          h = set_f32 ps (base + 6) (pt_x point) h;
          h = set_f32 ps (base + 7) (pt_y point + pt_tileHeight point) h;
          h = set_f32 ts (base + 0) (u / sw) h;
          h = set_f32 ts (base + 1) (v / sh) h;
          h = set_f32 ts (base + 2) ((u + pt_tileWidth point) / sw) h;
          h = set_f32 ts (base + 3) (v / sh) h;
          h = set_f32 ts (base + 4) ((u + pt_tileWidth point) / sw) h;
          h = set_f32 ts (base + 5) ((v + pt_tileHeight point) / sh) h;
          h = set_f32 ts (base + 6) (u / sw) h;
          h = set_f32 ts (base + 7) ((v + pt_tileHeight point) / sh) h;
          h = set_u32 ix (indBase + 0) pntBase h;
          h = set_u32 ix (indBase + 1) (pntBase + 1) h;
          h = set_u32 ix (indBase + 2) (pntBase + 2) h;
          h = set_u32 ix (indBase + 3) pntBase h;
          h = set_u32 ix (indBase + 4) (pntBase + 2) h;
          h = set_u32 ix (indBase + 5) (pntBase + 3) h
      in h)"

primrec write_quads ::
  "Tilemap \<Rightarrow> MeshGeometry \<Rightarrow> nat \<Rightarrow> PointStruct list \<Rightarrow> Heap \<Rightarrow> Heap" where
  "write_quads tm g i [] h = h"
| "write_quads tm g i (point # rest) h = write_quads tm g (Suc i) rest (write_quad tm g i point h)"

definition choose_geometry :: "nat \<Rightarrow> MeshGeometry option \<Rightarrow> Heap \<Rightarrow> MeshGeometry \<times> Heap" where
  \<comment> \<open>the allocation branch at the head of the geometry build, for a buffer of n commands\<close>
  "choose_geometry n geometry h =
     (case geometry of
        None \<Rightarrow> new_MeshGeometry n h
      | Some g \<Rightarrow>
          if v_len (positions g) \<le> n * 8 then new_MeshGeometry n h
          else if v_len (positions g) \<ge> n * 8
          then (g\<lparr>positions := subarray (positions g) 0 (n * 8),
                  uvs := subarray (uvs g) 0 (n * 8),
                  indices := subarray (indices g) 0 (n * 6)\<rparr>, h)
          else (g, h))"

definition computeGeometriesBatched ::
  "Tilemap \<Rightarrow> MeshGeometry option \<Rightarrow> Heap \<Rightarrow> MeshGeometry \<times> Heap" where
  "computeGeometriesBatched tm geometry h =
     (let (g, h1) = choose_geometry (length (pointsBuf tm)) geometry h
      in (g, write_quads tm g 0 (pointsBuf tm) h1))"

section \<open>The composite layer (class CompositeTilemap)\<close>

text \<open>
  A tile reference is a texture, a slot number or the shadow sentinel \<open>-1\<close> (a slot
  number). A string reference is turned into a texture by the display library's cache
  before the dispatch and is a \<open>TexRef\<close> here.
\<close>

datatype TileRef = TexRef Texture | NumRef int

record CompositeTilemap =
  children :: "Tilemap list"
  shadowId :: int
  layerTileAnim :: "real \<times> real"
  position :: "real \<times> real"

definition shadowTexture :: Texture where
  "shadowTexture = \<lparr>source = 0, tex_frame = Some (0, 0), tex_orig = Some (1, 1),
     source_width = 1, source_height = 1\<rparr>"

definition Texture_new :: Texture where
  \<comment> \<open>\<open>new Texture()\<close>: the library's empty one-pixel texture\<close>
  "Texture_new = \<lparr>source = 1, tex_frame = Some (0, 0), tex_orig = Some (1, 1),
     source_width = 1, source_height = 1\<rparr>"

definition tileset_check :: "Tilemap list \<Rightarrow> Texture option list \<Rightarrow> bool" where
  \<comment> \<open>the first loop of tileset: does some existing buffer differ from the texture given for it\<close>
  "tileset_check cs texs =
     list_ex (\<lambda>(c, t). (case t of None \<Rightarrow> True | Some tex \<Rightarrow> source (baseTexture c) \<noteq> source tex))
       (zip cs texs)"

definition CompositeTilemap_tileset ::
  "Texture option list \<Rightarrow> CompositeTilemap \<Rightarrow> CompositeTilemap outcome" where
  "CompositeTilemap_tileset tileTextures c =
     (if tileset_check (children c) tileTextures then (Some ReassignError, c)
      else (None, c\<lparr>children := children c @
              map (\<lambda>t. Tilemap_new (case t of None \<Rightarrow> Texture_new | Some tex \<Rightarrow> tex))
                (drop (length (children c)) tileTextures)\<rparr>))"

definition CompositeTilemap_new :: CompositeTilemap where
  \<comment> \<open>the constructor without a tileset\<close>
  "CompositeTilemap_new = \<lparr>children = [], shadowId = -1, layerTileAnim = (0, 0), position = (0, 0)\<rparr>"

definition CompositeTilemap_clear :: "CompositeTilemap \<Rightarrow> CompositeTilemap" where
  "CompositeTilemap_clear c = c\<lparr>children := map Tilemap_clear (children c)\<rparr>"

definition tile_child ::
  "nat \<Rightarrow> Texture option \<Rightarrow> real \<Rightarrow> real \<Rightarrow> TileOptions \<Rightarrow> CompositeTilemap \<Rightarrow>
   CompositeTilemap outcome" where
  \<comment> \<open>\<open>children[i].tile(texture, x, y, options)\<close> for an existing child\<close>
  "tile_child i texture x y options c =
     (fst (Tilemap_tile texture x y options (children c ! i)),
      c\<lparr>children := (children c)[i := snd (Tilemap_tile texture x y options (children c ! i))]\<rparr>)"

fun find_source :: "Tilemap list \<Rightarrow> nat \<Rightarrow> nat \<Rightarrow> nat option" where
  "find_source [] src i = None"
| "find_source (c # cs) src i =
     (if source (baseTexture c) = src then Some i else find_source cs src (Suc i))"

definition CompositeTilemap_tile ::
  "TileRef \<Rightarrow> real \<Rightarrow> real \<Rightarrow> TileOptions \<Rightarrow> CompositeTilemap \<Rightarrow> CompositeTilemap outcome" where
  "CompositeTilemap_tile tileTexture x y options c =
     (case tileTexture of
        NumRef n \<Rightarrow>
          if n = -1 then
            (if shadowId c = -1 then
               (let c1 = c\<lparr>children := children c @ [Tilemap_new shadowTexture]\<rparr>;
                    c2 = c1\<lparr>shadowId := int (length (children c1)) - 1\<rparr>
                in tile_child (length (children c2) - 1) None x y options c2)
             else (case nth_opt (children c) (shadowId c) of
                     None \<Rightarrow> (Some TypeError, c)
                   | Some _ \<Rightarrow> tile_child (nat (shadowId c)) None x y options c))
          else
            (case nth_opt (children c) n of
               Some _ \<Rightarrow> tile_child (nat n) None x y options c
             | None \<Rightarrow>
                 (case nth_opt (children c) 0 of
                    None \<Rightarrow> (None, c)
                  | Some _ \<Rightarrow> tile_child 0 None x y options c))
      | TexRef tex \<Rightarrow>
          (case find_source (children c) (source tex) 0 of
             Some i \<Rightarrow> tile_child i (Some tex) x y options c
           | None \<Rightarrow>
               (let c1 = c\<lparr>children := children c @ [Tilemap_new tex]\<rparr>
                in tile_child (length (children c1) - 1) (Some tex) x y options c1)))"

section \<open>The animation clock (class CounterInterpolator)\<close>

record CounterInterpolator =
  ci_current :: int
  ci_cumulated :: real
  ci_bound :: int
  ci_start :: int
  ci_inteval :: real

definition CounterInterpolator_new :: "int \<Rightarrow> int \<Rightarrow> real \<Rightarrow> CounterInterpolator" where
  "CounterInterpolator_new bound start inteval =
     \<lparr>ci_current = start, ci_cumulated = 0, ci_bound = bound, ci_start = start,
      ci_inteval = inteval\<rparr>"

definition ci_value :: "CounterInterpolator \<Rightarrow> int" where
  "ci_value c = ci_current c"

definition ci_updateDelta :: "real \<Rightarrow> CounterInterpolator \<Rightarrow> CounterInterpolator" where
  \<comment> \<open>every sum, quotient, product and difference is rounded to a double; the counter
      stays an integer, the rounded sum of two integers being one\<close>
  "ci_updateDelta delta c =
     (let cumulated = fl (ci_cumulated c + delta)
      in if cumulated \<ge> ci_inteval c
         then (let cnt = \<lfloor>fl (cumulated / ci_inteval c)\<rfloor>
               in c\<lparr>ci_current := js_rem \<lfloor>fl (of_int (ci_current c + cnt))\<rfloor> (ci_bound c),
                    ci_cumulated := fl (cumulated - fl (of_int cnt * ci_inteval c))\<rparr>)
         else c\<lparr>ci_cumulated := cumulated\<rparr>)"

section \<open>Tile ids (static members of the abstract class Tilemap)\<close>

definition TILE_ID_B :: int where "TILE_ID_B = 0"
definition TILE_ID_C :: int where "TILE_ID_C = 256"
definition TILE_ID_D :: int where "TILE_ID_D = 512"
definition TILE_ID_E :: int where "TILE_ID_E = 768"
definition TILE_ID_A5 :: int where "TILE_ID_A5 = 1536"
definition TILE_ID_A1 :: int where "TILE_ID_A1 = 2048"
definition TILE_ID_A2 :: int where "TILE_ID_A2 = 2816"
definition TILE_ID_A3 :: int where "TILE_ID_A3 = 4352"
definition TILE_ID_A4 :: int where "TILE_ID_A4 = 5888"
definition TILE_ID_MAX :: int where "TILE_ID_MAX = 8192"

definition isVisibleTile :: "int \<Rightarrow> bool" where
  "isVisibleTile tileId = (tileId > 0 \<and> tileId < TILE_ID_MAX)"

definition isAutotile :: "int \<Rightarrow> bool" where
  "isAutotile tileId = (tileId \<ge> TILE_ID_A1)"

definition getAutotileKind :: "int \<Rightarrow> int" where
  "getAutotileKind tileId = (tileId - TILE_ID_A1) div 48"

definition getAutotileShape :: "int \<Rightarrow> int" where
  "getAutotileShape tileId = js_rem (tileId - TILE_ID_A1) 48"

definition makeAutotileId :: "int \<Rightarrow> int \<Rightarrow> int" where
  "makeAutotileId kind shape = TILE_ID_A1 + kind * 48 + shape"

definition isTileA1 :: "int \<Rightarrow> bool" where
  "isTileA1 tileId = (tileId \<ge> TILE_ID_A1 \<and> tileId < TILE_ID_A2)"

definition isTileA2 :: "int \<Rightarrow> bool" where
  "isTileA2 tileId = (tileId \<ge> TILE_ID_A2 \<and> tileId < TILE_ID_A3)"

definition isTileA3 :: "int \<Rightarrow> bool" where
  "isTileA3 tileId = (tileId \<ge> TILE_ID_A3 \<and> tileId < TILE_ID_A4)"

definition isTileA4 :: "int \<Rightarrow> bool" where
  "isTileA4 tileId = (tileId \<ge> TILE_ID_A4 \<and> tileId < TILE_ID_MAX)"

definition isTileA5 :: "int \<Rightarrow> bool" where
  "isTileA5 tileId = (tileId \<ge> TILE_ID_A5 \<and> tileId < TILE_ID_A1)"

definition isShadowingTile :: "int \<Rightarrow> bool" where
  "isShadowingTile tileId = (isTileA3 tileId \<or> isTileA4 tileId)"

type_synonym autotile_table = "(int \<times> int) list list"

definition FLOOR_AUTOTILE_TABLE :: autotile_table where
  "FLOOR_AUTOTILE_TABLE = [
    [(2, 4), (1, 4), (2, 3), (1, 3)], [(2, 0), (1, 4), (2, 3), (1, 3)],
    [(2, 4), (3, 0), (2, 3), (1, 3)], [(2, 0), (3, 0), (2, 3), (1, 3)],
    [(2, 4), (1, 4), (2, 3), (3, 1)], [(2, 0), (1, 4), (2, 3), (3, 1)],
    [(2, 4), (3, 0), (2, 3), (3, 1)], [(2, 0), (3, 0), (2, 3), (3, 1)],
    [(2, 4), (1, 4), (2, 1), (1, 3)], [(2, 0), (1, 4), (2, 1), (1, 3)],
    [(2, 4), (3, 0), (2, 1), (1, 3)], [(2, 0), (3, 0), (2, 1), (1, 3)],
    [(2, 4), (1, 4), (2, 1), (3, 1)], [(2, 0), (1, 4), (2, 1), (3, 1)],
    [(2, 4), (3, 0), (2, 1), (3, 1)], [(2, 0), (3, 0), (2, 1), (3, 1)],
    [(0, 4), (1, 4), (0, 3), (1, 3)], [(0, 4), (3, 0), (0, 3), (1, 3)],
    [(0, 4), (1, 4), (0, 3), (3, 1)], [(0, 4), (3, 0), (0, 3), (3, 1)],
    [(2, 2), (1, 2), (2, 3), (1, 3)], [(2, 2), (1, 2), (2, 3), (3, 1)],
    [(2, 2), (1, 2), (2, 1), (1, 3)], [(2, 2), (1, 2), (2, 1), (3, 1)],
    [(2, 4), (3, 4), (2, 3), (3, 3)], [(2, 4), (3, 4), (2, 1), (3, 3)],
    [(2, 0), (3, 4), (2, 3), (3, 3)], [(2, 0), (3, 4), (2, 1), (3, 3)],
    [(2, 4), (1, 4), (2, 5), (1, 5)], [(2, 0), (1, 4), (2, 5), (1, 5)],
    [(2, 4), (3, 0), (2, 5), (1, 5)], [(2, 0), (3, 0), (2, 5), (1, 5)],
    [(0, 4), (3, 4), (0, 3), (3, 3)], [(2, 2), (1, 2), (2, 5), (1, 5)],
    [(0, 2), (1, 2), (0, 3), (1, 3)], [(0, 2), (1, 2), (0, 3), (3, 1)],
    [(2, 2), (3, 2), (2, 3), (3, 3)], [(2, 2), (3, 2), (2, 1), (3, 3)],
    [(2, 4), (3, 4), (2, 5), (3, 5)], [(2, 0), (3, 4), (2, 5), (3, 5)],
    [(0, 4), (1, 4), (0, 5), (1, 5)], [(0, 4), (3, 0), (0, 5), (1, 5)],
    [(0, 2), (3, 2), (0, 3), (3, 3)], [(0, 2), (1, 2), (0, 5), (1, 5)],
    [(0, 4), (3, 4), (0, 5), (3, 5)], [(2, 2), (3, 2), (2, 5), (3, 5)],
    [(0, 2), (3, 2), (0, 5), (3, 5)], [(0, 0), (1, 0), (0, 1), (1, 1)]]"

definition WALL_AUTOTILE_TABLE :: autotile_table where
  "WALL_AUTOTILE_TABLE = [
    [(2, 2), (1, 2), (2, 1), (1, 1)], [(0, 2), (1, 2), (0, 1), (1, 1)],
    [(2, 0), (1, 0), (2, 1), (1, 1)], [(0, 0), (1, 0), (0, 1), (1, 1)],
    [(2, 2), (3, 2), (2, 1), (3, 1)], [(0, 2), (3, 2), (0, 1), (3, 1)],
    [(2, 0), (3, 0), (2, 1), (3, 1)], [(0, 0), (3, 0), (0, 1), (3, 1)],
    [(2, 2), (1, 2), (2, 3), (1, 3)], [(0, 2), (1, 2), (0, 3), (1, 3)],
    [(2, 0), (1, 0), (2, 3), (1, 3)], [(0, 0), (1, 0), (0, 3), (1, 3)],
    [(2, 2), (3, 2), (2, 3), (3, 3)], [(0, 2), (3, 2), (0, 3), (3, 3)],
    [(2, 0), (3, 0), (2, 3), (3, 3)], [(0, 0), (3, 0), (0, 3), (3, 3)]]"

definition WATERFALL_AUTOTILE_TABLE :: autotile_table where
  "WATERFALL_AUTOTILE_TABLE = [
    [(2, 0), (1, 0), (2, 1), (1, 1)], [(0, 0), (1, 0), (0, 1), (1, 1)],
    [(2, 0), (3, 0), (2, 1), (3, 1)], [(0, 0), (3, 0), (0, 1), (3, 1)]]"

section \<open>The renderer (classes Tilemap and ShaderTilemap of rmmv)\<close>

datatype layer_ref = Lower nat | Upper nat | Shadow

text \<open>
  The renderer's state: the fields of the abstract tilemap and of the shader tilemap.
  \<open>displayList\<close> is the container's list of children, in display order; the layers
  themselves are held in \<open>lowerLayer\<close>, \<open>upperLayer\<close> and \<open>shadowLayer\<close>. \<open>origin\<close> is the
  point that the repaint reads.
\<close>

record ShaderTilemap =
  margin :: real
  tileWidth :: real
  tileHeight :: real
  mapWidth :: int
  mapHeight :: int
  mapData :: "int list option"
  bitmaps :: "Texture option list"
  scrollOrigin :: "real \<times> real"
  origin :: "real \<times> real"
  flags :: "int list"
  animationCount :: CounterInterpolator
  horizontalWrap :: bool
  verticalWrap :: bool
  animationFrame :: int
  width :: real
  height :: real
  roundPixels :: bool
  lastBitmapLength :: int
  lastStartX :: "int option"
  lastStartY :: "int option"
  lowerLayer :: "CompositeTilemap list"
  upperLayer :: "CompositeTilemap list"
  shadowLayer :: CompositeTilemap
  paintAll :: bool
  displayList :: "layer_ref list"

definition flag_at :: "ShaderTilemap \<Rightarrow> int \<Rightarrow> int" where
  \<comment> \<open>\<open>this.flags[tileId]\<close> as an operand of \<open>&\<close>: undefined counts as 0\<close>
  "flag_at s tileId = (case nth_opt (flags s) tileId of None \<Rightarrow> 0 | Some f \<Rightarrow> f)"

definition isHigherTile :: "ShaderTilemap \<Rightarrow> int \<Rightarrow> bool" where
  "isHigherTile s tileId = (flag_at s tileId AND 0x10 \<noteq> 0)"

definition isTableTile :: "ShaderTilemap \<Rightarrow> int \<Rightarrow> bool" where
  "isTableTile s tileId = (isTileA2 tileId \<and> flag_at s tileId AND 0x80 \<noteq> 0)"

definition isOverpassPosition :: "ShaderTilemap \<Rightarrow> int \<Rightarrow> int \<Rightarrow> bool" where
  "isOverpassPosition s mx my = False"

definition readMapData :: "ShaderTilemap \<Rightarrow> int \<Rightarrow> int \<Rightarrow> int \<Rightarrow> int" where
  "readMapData s x y z =
     (case mapData s of
        None \<Rightarrow> 0
      | Some d \<Rightarrow>
          (let w = mapWidth s; h = mapHeight s;
               x = (if horizontalWrap s then numberMod x w else x);
               y = (if verticalWrap s then numberMod y h else y)
           in if x \<ge> 0 \<and> x < w \<and> y \<ge> 0 \<and> y < h
              then (case nth_opt d ((z * h + y) * w + x) of None \<Rightarrow> 0 | Some t \<Rightarrow> t)
              else 0))"

subsection \<open>The tile decoder\<close>

text \<open>
  The decoder's invocations of \<open>layer.tile\<close> are collected, in the order the source
  makes them, as a list of calls together with the exception that ended the decoding, if
  any; \<open>perform\<close> then makes them on a layer.
\<close>

record TileCall =
  tc_ref :: int
  tc_x :: real
  tc_y :: real
  tc_options :: TileOptions

type_synonym calls = "TileCall list \<times> error option"

definition drawNormalTile_calls :: "ShaderTilemap \<Rightarrow> int \<Rightarrow> real \<Rightarrow> real \<Rightarrow> calls" where
  "drawNormalTile_calls s tileId dx dy =
     (let setNumber = (if isTileA5 tileId then 4 else 5 + tileId div 256);
          w = tileWidth s;
          h = tileHeight s;
          sx = of_int (js_rem (tileId div 128) 2 * 8 + js_rem tileId 8) * w;
          sy = of_int (js_rem (js_rem tileId 256 div 8) 16) * h
      in ([\<lparr>tc_ref = setNumber, tc_x = dx, tc_y = dy,
            tc_options = no_options\<lparr>opt_u := Some sx, opt_v := Some sy,
              opt_tileWidth := Some w, opt_tileHeight := Some h\<rparr>\<rparr>], None))"

record AutotileBase =
  ab_table :: autotile_table
  ab_bx :: int
  ab_by :: int
  ab_setNumber :: int
  ab_isTable :: bool
  ab_animX :: int
  ab_animY :: int

definition autotile_base :: "ShaderTilemap \<Rightarrow> int \<Rightarrow> AutotileBase" where
  \<comment> \<open>the band-specific head of the autotile decoder\<close>
  "autotile_base s tileId =
     (let kind = getAutotileKind tileId;
          tx = js_rem kind 8;
          ty = kind div 8;
          b0 = \<lparr>ab_table = FLOOR_AUTOTILE_TABLE, ab_bx = 0, ab_by = 0, ab_setNumber = 0,
                ab_isTable = False, ab_animX = 0, ab_animY = 0\<rparr>
      in if isTileA1 tileId then
           (if kind = 0 then b0\<lparr>ab_animX := 2, ab_by := 0\<rparr>
            else if kind = 1 then b0\<lparr>ab_animX := 2, ab_by := 3\<rparr>
            else if kind = 2 then b0\<lparr>ab_bx := 6, ab_by := 0\<rparr>
            else if kind = 3 then b0\<lparr>ab_bx := 6, ab_by := 3\<rparr>
            else (let bx = tx div 4 * 8;
                      by = ty * 6 + js_rem (tx div 2) 2 * 3
                  in if js_rem kind 2 = 0 then b0\<lparr>ab_bx := bx, ab_by := by, ab_animX := 2\<rparr>
                     else b0\<lparr>ab_bx := bx + 6, ab_by := by,
                            ab_table := WATERFALL_AUTOTILE_TABLE, ab_animY := 1\<rparr>))
         else if isTileA2 tileId then
           b0\<lparr>ab_setNumber := 1, ab_bx := tx * 2, ab_by := (ty - 2) * 3,
              ab_isTable := isTableTile s tileId\<rparr>
         else if isTileA3 tileId then
           b0\<lparr>ab_setNumber := 2, ab_bx := tx * 2, ab_by := (ty - 6) * 2,
              ab_table := WALL_AUTOTILE_TABLE\<rparr>
         else if isTileA4 tileId then
           b0\<lparr>ab_setNumber := 3, ab_bx := tx * 2,
              ab_by := \<lfloor>of_int (ty - 10) * (2.5::real) + (if js_rem ty 2 = 1 then 0.5 else 0)\<rfloor>,
              ab_table := (if js_rem ty 2 = 1 then WALL_AUTOTILE_TABLE else FLOOR_AUTOTILE_TABLE)\<rparr>
         else b0)"

definition quad_call ::
  "int \<Rightarrow> real \<Rightarrow> real \<Rightarrow> real \<Rightarrow> real \<Rightarrow> real \<Rightarrow> real \<Rightarrow> int \<Rightarrow> int \<Rightarrow> TileCall" where
  "quad_call setNumber x y u v tw th animX animY =
     \<lparr>tc_ref = setNumber, tc_x = x, tc_y = y,
      tc_options = no_options\<lparr>opt_u := Some u, opt_v := Some v, opt_tileWidth := Some tw,
        opt_tileHeight := Some th, opt_animX := Some animX, opt_animY := Some animY\<rparr>\<rparr>"

definition autotile_quadrant ::
  "ShaderTilemap \<Rightarrow> AutotileBase \<Rightarrow> (int \<times> int) list \<Rightarrow> real \<Rightarrow> real \<Rightarrow> int \<Rightarrow> error + TileCall list"
where
  \<comment> \<open>one iteration of the quadrant loop of the autotile decoder\<close>
  "autotile_quadrant s b table dx dy i =
     (case nth_opt table i of
        None \<Rightarrow> Inl TypeError
      | Some (qsx, qsy) \<Rightarrow>
          (let w1 = tileWidth s / 2;
               h1 = tileHeight s / 2;
               bx = ab_bx b; by = ab_by b;
               sx1 = of_int (bx * 2 + qsx) * w1;
               sy1 = of_int (by * 2 + qsy) * h1;
               dx1 = dx + of_int (js_rem i 2) * w1;
               dy1 = dy + of_int (i div 2) * h1
           in if ab_isTable b \<and> (qsy = 1 \<or> qsy = 5) then
                (let qsx2 = (if qsy = 1 then js_rem (4 - qsx) 4 else qsx);
                     qsy2 = 3;
                     sx2 = of_int (bx * 2 + qsx2) * w1;
                     sy2 = of_int (by * 2 + qsy2) * h1
                 in Inr [quad_call (ab_setNumber b) dx1 dy1 sx2 sy2 w1 h1 (ab_animX b) (ab_animY b),
                         quad_call (ab_setNumber b) dx1 (dy1 + h1 / 2) sx1 sy1 w1 (h1 / 2)
                           (ab_animX b) (ab_animY b)])
              else Inr [quad_call (ab_setNumber b) dx1 dy1 sx1 sy1 w1 h1 (ab_animX b) (ab_animY b)]))"

primrec collect :: "(error + TileCall list) list \<Rightarrow> calls" where
  \<comment> \<open>the calls of successive iterations, up to the first one that throws\<close>
  "collect [] = ([], None)"
| "collect (r # rs) =
     (case r of Inl e \<Rightarrow> ([], Some e)
      | Inr cs \<Rightarrow> (cs @ fst (collect rs), snd (collect rs)))"

definition drawAutotile_calls :: "ShaderTilemap \<Rightarrow> int \<Rightarrow> real \<Rightarrow> real \<Rightarrow> calls" where
  "drawAutotile_calls s tileId dx dy =
     (let b = autotile_base s tileId;
          shape = getAutotileShape tileId
      in case nth_opt (ab_table b) shape of
           None \<Rightarrow> ([], Some TypeError)
         | Some table \<Rightarrow> collect (map (autotile_quadrant s b table dx dy) [0, 1, 2, 3]))"

definition drawTile_calls :: "ShaderTilemap \<Rightarrow> int \<Rightarrow> real \<Rightarrow> real \<Rightarrow> calls" where
  "drawTile_calls s tileId dx dy =
     (if isVisibleTile tileId
      then (if isAutotile tileId then drawAutotile_calls s tileId dx dy
            else drawNormalTile_calls s tileId dx dy)
      else ([], None))"

definition tableEdge_quadrant ::
  "ShaderTilemap \<Rightarrow> int \<Rightarrow> int \<Rightarrow> (int \<times> int) list \<Rightarrow> real \<Rightarrow> real \<Rightarrow> int \<Rightarrow> error + TileCall list"
where
  "tableEdge_quadrant s bx by table dx dy i =
     (case nth_opt table (2 + i) of
        None \<Rightarrow> Inl TypeError
      | Some (qsx, qsy) \<Rightarrow>
          (let w1 = tileWidth s / 2;
               h1 = tileHeight s / 2;
               sx1 = of_int (bx * 2 + qsx) * w1;
               sy1 = of_int (by * 2 + qsy) * h1 + h1 / 2;
               dx1 = dx + of_int (js_rem i 2) * w1;
               dy1 = dy + of_int (i div 2) * h1
           in Inr [\<lparr>tc_ref = 1, tc_x = dx1, tc_y = dy1,
                    tc_options = no_options\<lparr>opt_u := Some sx1, opt_v := Some sy1,
                      opt_tileWidth := Some w1, opt_tileHeight := Some (h1 / 2)\<rparr>\<rparr>]))"

definition drawTableEdge_calls :: "ShaderTilemap \<Rightarrow> int \<Rightarrow> real \<Rightarrow> real \<Rightarrow> calls" where
  "drawTableEdge_calls s tileId dx dy =
     (if isTileA2 tileId then
        (let kind = getAutotileKind tileId;
             shape = getAutotileShape tileId;
             tx = js_rem kind 8;
             ty = kind div 8;
             bx = tx * 2;
             by = (ty - 2) * 3
         in case nth_opt FLOOR_AUTOTILE_TABLE shape of
              None \<Rightarrow> ([], Some TypeError)
            | Some table \<Rightarrow> collect (map (tableEdge_quadrant s bx by table dx dy) [0, 1]))
      else ([], None))"

definition shadow_quadrant :: "ShaderTilemap \<Rightarrow> int \<Rightarrow> real \<Rightarrow> real \<Rightarrow> nat \<Rightarrow> TileCall list" where
  "shadow_quadrant s shadowBits dx dy i =
     (if shadowBits AND push_bit i 1 \<noteq> 0
      then [\<lparr>tc_ref = -1, tc_x = dx + of_int (js_rem (int i) 2) * (tileWidth s / 2),
             tc_y = dy + of_int (int i div 2) * (tileHeight s / 2),
             tc_options = no_options\<lparr>opt_tileWidth := Some (tileWidth s / 2),
               opt_tileHeight := Some (tileHeight s / 2)\<rparr>\<rparr>]
      else [])"

definition drawShadow_calls :: "ShaderTilemap \<Rightarrow> int \<Rightarrow> real \<Rightarrow> real \<Rightarrow> calls" where
  "drawShadow_calls s shadowBits dx dy =
     (if shadowBits AND 0x0f \<noteq> 0
      then (concat (map (shadow_quadrant s shadowBits dx dy) [0, 1, 2, 3]), None)
      else ([], None))"

definition perform :: "calls \<Rightarrow> CompositeTilemap \<Rightarrow> CompositeTilemap outcome" where
  "perform cs layer =
     andThen (forEach (fst cs)
                (\<lambda>c. CompositeTilemap_tile (NumRef (tc_ref c)) (tc_x c) (tc_y c) (tc_options c)) layer)
       (\<lambda>l. (snd cs, l))"

subsection \<open>Painting\<close>

definition get_layer :: "ShaderTilemap \<Rightarrow> layer_ref \<Rightarrow> CompositeTilemap option" where
  "get_layer s r =
     (case r of Lower k \<Rightarrow> nth_opt (lowerLayer s) (int k)
      | Upper k \<Rightarrow> nth_opt (upperLayer s) (int k)
      | Shadow \<Rightarrow> Some (shadowLayer s))"

definition set_layer :: "layer_ref \<Rightarrow> CompositeTilemap \<Rightarrow> ShaderTilemap \<Rightarrow> ShaderTilemap" where
  "set_layer r l s =
     (case r of Lower k \<Rightarrow> s\<lparr>lowerLayer := (lowerLayer s)[k := l]\<rparr>
      | Upper k \<Rightarrow> s\<lparr>upperLayer := (upperLayer s)[k := l]\<rparr>
      | Shadow \<Rightarrow> s\<lparr>shadowLayer := l\<rparr>)"

definition drawOn :: "layer_ref \<Rightarrow> calls \<Rightarrow> ShaderTilemap \<Rightarrow> ShaderTilemap outcome" where
  \<comment> \<open>a draw method applied to one of the renderer's layers; a missing layer is a TypeError
      at the first call made on it\<close>
  "drawOn r cs s =
     (case get_layer s r of
        Some l \<Rightarrow> (fst (perform cs l), set_layer r (snd (perform cs l)) s)
      | None \<Rightarrow> (if fst cs = [] then (snd cs, s) else (Some TypeError, s)))"

definition paint_steps ::
  "int \<Rightarrow> int \<Rightarrow> int \<Rightarrow> int \<Rightarrow> ShaderTilemap \<Rightarrow> (layer_ref \<times> calls) list" where
  \<comment> \<open>the draw methods that painting one cell invokes, in order, each with its layer\<close>
  "paint_steps startX startY x y s =
     (let mx = startX + x;
          my = startY + y;
          dx = of_int x * tileWidth s;
          dy = of_int y * tileHeight s;
          tileId0 = readMapData s mx my 0;
          tileId1 = readMapData s mx my 1;
          tileId2 = readMapData s mx my 2;
          tileId3 = readMapData s mx my 3;
          shadowBits = readMapData s mx my 4;
          upperTileId1 = readMapData s mx (my - 1) 1
      in [(if isHigherTile s tileId0 then Upper 0 else Lower 0, drawTile_calls s tileId0 dx dy),
          (if isHigherTile s tileId1 then Upper 1 else Lower 1, drawTile_calls s tileId1 dx dy),
          (Shadow, drawShadow_calls s shadowBits dx dy)] @
         (if isTableTile s upperTileId1 \<and> \<not> isTableTile s tileId1 \<and> \<not> isShadowingTile tileId0
          then [(Lower 2, drawTableEdge_calls s upperTileId1 dx dy)] else []) @
         (if isOverpassPosition s mx my
          then [(Upper 2, drawTile_calls s tileId2 dx dy), (Upper 3, drawTile_calls s tileId3 dx dy)]
          else [(if isHigherTile s tileId2 then Upper 2 else Lower 2, drawTile_calls s tileId2 dx dy),
                (if isHigherTile s tileId3 then Upper 3 else Lower 3, drawTile_calls s tileId3 dx dy)]))"

definition paintTiles :: "int \<Rightarrow> int \<Rightarrow> int \<Rightarrow> int \<Rightarrow> ShaderTilemap \<Rightarrow> ShaderTilemap outcome" where
  \<comment> \<open>the map, the flags and the tile size that the steps are decoded from are not changed
      by drawing; the guard on missing layer arrays never fires, an array being truthy\<close>
  "paintTiles startX startY x y s =
     forEach (paint_steps startX startY x y s) (\<lambda>step. drawOn (fst step) (snd step)) s"

definition clearLayers :: "ShaderTilemap \<Rightarrow> ShaderTilemap" where
  \<comment> \<open>the clear phase of the full paint\<close>
  "clearLayers s =
     s\<lparr>lowerLayer := map CompositeTilemap_clear (lowerLayer s),
       upperLayer := map CompositeTilemap_clear (upperLayer s),
       shadowLayer := CompositeTilemap_clear (shadowLayer s)\<rparr>"

definition paintAllTiles :: "int \<Rightarrow> int \<Rightarrow> ShaderTilemap \<Rightarrow> ShaderTilemap outcome" where
  "paintAllTiles startX startY s =
     (let s1 = clearLayers s
      in if paintAll s1
         then forEach [0 .. mapHeight s1 - 1]
                (\<lambda>y. forEach [0 .. mapWidth s1 - 1] (\<lambda>x. paintTiles 0 0 x y)) s1
         else (let tileCols = \<lceil>width s1 / tileWidth s1\<rceil> + 1;
                   tileRows = \<lceil>height s1 / tileHeight s1\<rceil> + 1
               in forEach [0 .. tileRows - 1]
                    (\<lambda>y. forEach [0 .. tileCols - 1] (\<lambda>x. paintTiles startX startY x y)) s1))"

definition rounded_origin :: "ShaderTilemap \<Rightarrow> real \<times> real" where
  "rounded_origin s =
     (if roundPixels s then (of_int \<lfloor>fst (origin s)\<rfloor>, of_int \<lfloor>snd (origin s)\<rfloor>)
      else origin s)"

definition updateLayerPositions :: "int \<Rightarrow> int \<Rightarrow> ShaderTilemap \<Rightarrow> ShaderTilemap" where
  "updateLayerPositions startX startY s =
     (let ox = fst (rounded_origin s);
          oy = snd (rounded_origin s);
          p = (of_int startX * tileWidth s - ox, of_int startY * tileHeight s - oy)
      in s\<lparr>lowerLayer := map (\<lambda>l. l\<lparr>position := p\<rparr>) (lowerLayer s),
           upperLayer := map (\<lambda>l. l\<lparr>position := p\<rparr>) (upperLayer s),
           shadowLayer := (shadowLayer s)\<lparr>position := p\<rparr>\<rparr>)"

definition repaint :: "bool \<Rightarrow> ShaderTilemap \<Rightarrow> ShaderTilemap outcome" where
  "repaint force s =
     (let ox = fst (rounded_origin s);
          oy = snd (rounded_origin s)
      in if paintAll s
         then (let s1 = updateLayerPositions 0 0 s
               in if force then paintAllTiles 0 0 s1 else (None, s1))
         else (let startX = \<lfloor>(ox - margin s) / tileWidth s\<rfloor>;
                   startY = \<lfloor>(oy - margin s) / tileHeight s\<rfloor>;
                   s1 = updateLayerPositions startX startY s
               in if force \<or> lastStartX s1 \<noteq> Some startX \<or> lastStartY s1 \<noteq> Some startY
                  then paintAllTiles startX startY
                         (s1\<lparr>lastStartX := Some startX, lastStartY := Some startY\<rparr>)
                  else (None, s1)))"

definition updateTileAnim :: "real \<Rightarrow> real \<Rightarrow> ShaderTilemap \<Rightarrow> ShaderTilemap" where
  "updateTileAnim x y s =
     s\<lparr>lowerLayer := map (\<lambda>l. l\<lparr>layerTileAnim := (x, y)\<rparr>) (lowerLayer s),
       upperLayer := map (\<lambda>l. l\<lparr>layerTileAnim := (x, y)\<rparr>) (upperLayer s)\<rparr>"

definition updateDelta :: "real \<Rightarrow> ShaderTilemap \<Rightarrow> ShaderTilemap" where
  "updateDelta delta s =
     (let s1 = s\<lparr>animationCount := ci_updateDelta delta (animationCount s)\<rparr>;
          s2 = s1\<lparr>animationFrame := ci_value (animationCount s1)\<rparr>;
          af = js_rem (animationFrame s2) 4;
          af = (if af = 3 then 1 else af)
      in updateTileAnim (of_int af * tileWidth s2)
           (of_int (js_rem (animationFrame s2) 3) * tileHeight s2) s2)"

definition set_scrollOrigin :: "real \<times> real \<Rightarrow> ShaderTilemap \<Rightarrow> ShaderTilemap outcome" where
  "set_scrollOrigin v s =
     (if fst v \<noteq> fst (scrollOrigin s) \<or> snd v \<noteq> snd (scrollOrigin s)
      then repaint False (s\<lparr>scrollOrigin := v\<rparr>)
      else (None, s))"

definition setData :: "int \<Rightarrow> int \<Rightarrow> int list \<Rightarrow> ShaderTilemap \<Rightarrow> ShaderTilemap" where
  "setData w h d s = s\<lparr>mapWidth := w, mapHeight := h, mapData := Some d\<rparr>"

primrec tileset_each ::
  "Texture option list \<Rightarrow> CompositeTilemap list \<Rightarrow> CompositeTilemap list outcome" where
  \<comment> \<open>\<open>for (const layer of layers) layer.tileset(bitmaps)\<close>\<close>
  "tileset_each texs [] = (None, [])"
| "tileset_each texs (l # ls) =
     (case fst (CompositeTilemap_tileset texs l) of
        Some e \<Rightarrow> (Some e, l # ls)
      | None \<Rightarrow> (fst (tileset_each texs ls),
                 snd (CompositeTilemap_tileset texs l) # snd (tileset_each texs ls)))"

definition updateBitmaps :: "ShaderTilemap \<Rightarrow> ShaderTilemap outcome" where
  \<comment> \<open>the sources of the bitmaps that are present, undefined entries dropped, given to
      each lower and then each upper layer as if they were textures\<close>
  "updateBitmaps s =
     (let texs = map (\<lambda>t. Some (texture_source t)) (List.map_filter (\<lambda>b. b) (bitmaps s));
          lo = tileset_each texs (lowerLayer s)
      in case fst lo of
           Some e \<Rightarrow> (Some e, s\<lparr>lowerLayer := snd lo\<rparr>)
         | None \<Rightarrow> (fst (tileset_each texs (upperLayer s)),
                    s\<lparr>lowerLayer := snd lo, upperLayer := snd (tileset_each texs (upperLayer s))\<rparr>))"

definition refresh :: "ShaderTilemap \<Rightarrow> ShaderTilemap outcome" where
  "refresh s =
     (if lastBitmapLength s \<noteq> int (length (bitmaps s))
      then andThen (updateBitmaps (s\<lparr>lastBitmapLength := int (length (bitmaps s))\<rparr>))
             (repaint True)
      else repaint True s)"

definition addChild :: "layer_ref list \<Rightarrow> ShaderTilemap \<Rightarrow> ShaderTilemap" where
  "addChild rs s = s\<lparr>displayList := displayList s @ rs\<rparr>"

definition ShaderTilemap_fields :: "real \<Rightarrow> real \<Rightarrow> bool \<Rightarrow> ShaderTilemap" where
  \<comment> \<open>the field initialisers and the base constructors, before any layer exists\<close>
  "ShaderTilemap_fields w h pa =
     \<lparr>margin = 20, tileWidth = 48, tileHeight = 48, mapWidth = 0, mapHeight = 0,
      mapData = None, bitmaps = [], scrollOrigin = (0, 0), origin = (0, 0), flags = [],
      animationCount = CounterInterpolator_new 12 0 (30 / DefaultFps),
      horizontalWrap = False, verticalWrap = False, animationFrame = 0,
      width = w + 20 * 2, height = h + 20 * 2, roundPixels = False, lastBitmapLength = -1,
      lastStartX = None, lastStartY = None, lowerLayer = [], upperLayer = [],
      shadowLayer = CompositeTilemap_new, paintAll = pa, displayList = []\<rparr>"

definition ShaderTilemap_new :: "real \<Rightarrow> real \<Rightarrow> bool \<Rightarrow> ShaderTilemap outcome" where
  "ShaderTilemap_new w h pa =
     (let s = ShaderTilemap_fields w h pa;
          s = s\<lparr>lowerLayer := replicate 4 CompositeTilemap_new\<rparr>;
          s = addChild [Lower 0, Lower 1] s;
          s = s\<lparr>shadowLayer := CompositeTilemap_new\<rparr>;
          s = addChild [Shadow] s;
          s = addChild [Lower 2, Lower 3] s;
          s = s\<lparr>upperLayer := replicate 4 CompositeTilemap_new\<rparr>;
          s = addChild (map Upper [0 ..< length (upperLayer s)]) s
      in andThen (repaint True s) refresh)"

section \<open>Definitions used in the statements and proofs\<close>

definition frame_of :: "ShaderTilemap \<Rightarrow> ShaderTilemap" where
  \<comment> \<open>the renderer's state with the contents of its layers blanked\<close>
  "frame_of s = s\<lparr>lowerLayer := [], upperLayer := [], shadowLayer := CompositeTilemap_new\<rparr>"

definition placed :: "real \<times> real \<Rightarrow> ShaderTilemap \<Rightarrow> bool" where
  \<comment> \<open>every layer is at position p\<close>
  "placed p s = (list_all (\<lambda>l. position l = p) (lowerLayer s) \<and>
     list_all (\<lambda>l. position l = p) (upperLayer s) \<and> position (shadowLayer s) = p)"

definition example_texture :: Texture where
  "example_texture = \<lparr>source = 7, tex_frame = Some (0, 0), tex_orig = Some (768, 576),
     source_width = 768, source_height = 576\<rparr>"

definition example_layer :: CompositeTilemap where
  "example_layer =
     CompositeTilemap_new\<lparr>children := [Tilemap_new example_texture, Tilemap_new Texture_new]\<rparr>"



definition example_renderer :: ShaderTilemap where
  \<comment> \<open>a map of one cell: a floor autotile on plane 0 and shadow bits 3\<close>
  "example_renderer = setData 1 1 [2816, 0, 0, 0, 3]
     ((ShaderTilemap_fields 8 8 False)\<lparr>lowerLayer := replicate 4 example_layer,
        upperLayer := replicate 4 example_layer\<rparr>)"

subsection \<open>Bands of tile ids\<close>

text \<open>
  The bands as the specification documents them, and the classification that it claims to
  be total and exclusive.
\<close>

definition spec_bandB :: "int \<Rightarrow> bool" where "spec_bandB t = (0 \<le> t \<and> t < 256)"
definition spec_bandC :: "int \<Rightarrow> bool" where "spec_bandC t = (256 \<le> t \<and> t < 512)"
definition spec_bandD :: "int \<Rightarrow> bool" where "spec_bandD t = (512 \<le> t \<and> t < 768)"
definition spec_bandE :: "int \<Rightarrow> bool" where "spec_bandE t = (768 \<le> t \<and> t < 1024)"
definition spec_bandA5 :: "int \<Rightarrow> bool" where "spec_bandA5 t = (1536 \<le> t \<and> t < 2048)"
definition spec_bandA1 :: "int \<Rightarrow> bool" where "spec_bandA1 t = (2048 \<le> t \<and> t < 2816)"
definition spec_bandA2 :: "int \<Rightarrow> bool" where "spec_bandA2 t = (2816 \<le> t \<and> t < 4352)"
definition spec_bandA3 :: "int \<Rightarrow> bool" where "spec_bandA3 t = (4352 \<le> t \<and> t < 5888)"
definition spec_bandA4 :: "int \<Rightarrow> bool" where "spec_bandA4 t = (5888 \<le> t \<and> t < 8192)"

definition spec_in_band :: "int \<Rightarrow> bool" where
  "spec_in_band t = (spec_bandB t \<or> spec_bandC t \<or> spec_bandD t \<or> spec_bandE t \<or>
     spec_bandA5 t \<or> spec_bandA1 t \<or> spec_bandA2 t \<or> spec_bandA3 t \<or> spec_bandA4 t)"

definition spec_invisible :: "int \<Rightarrow> bool" where
  \<comment> \<open>ids at most 0 or at least 8192, and ids that belong to no band\<close>
  "spec_invisible t = (t \<le> 0 \<or> 8192 \<le> t \<or> \<not> spec_in_band t)"

definition spec_classes :: "(int \<Rightarrow> bool) list" where
  "spec_classes = [spec_invisible, spec_bandB, spec_bandC, spec_bandD, spec_bandE,
     spec_bandA5, spec_bandA1, spec_bandA2, spec_bandA3, spec_bandA4]"

definition holding :: "(int \<Rightarrow> bool) list \<Rightarrow> int \<Rightarrow> nat" where
  \<comment> \<open>how many of the classes hold of a tile id\<close>
  "holding cs t = length (filter (\<lambda>p. p t) cs)"

definition spec_slot :: "int \<Rightarrow> int" where
  \<comment> \<open>the slot of a tile id under the slot order A5, A1, A2, A3, A4, B, C, D, E\<close>
  "spec_slot t =
     (if spec_bandA5 t then 0 else if spec_bandA1 t then 1 else if spec_bandA2 t then 2
      else if spec_bandA3 t then 3 else if spec_bandA4 t then 4 else if spec_bandB t then 5
      else if spec_bandC t then 6 else if spec_bandD t then 7 else 8)"

text \<open>
  The classes that the renderer distinguishes: the checkers of the source, and for the
  tiles that are neither autotiles nor A5 the ranges that the slot number
  \<open>5 + floor(id / 256)\<close> of the normal-tile decoder cuts out of the visible ids.
\<close>

definition invisibleTile :: "int \<Rightarrow> bool" where "invisibleTile t = (\<not> isVisibleTile t)"
definition inBandB :: "int \<Rightarrow> bool" where "inBandB t = (TILE_ID_B < t \<and> t < TILE_ID_C)"
definition inBandC :: "int \<Rightarrow> bool" where "inBandC t = (TILE_ID_C \<le> t \<and> t < TILE_ID_D)"
definition inBandD :: "int \<Rightarrow> bool" where "inBandD t = (TILE_ID_D \<le> t \<and> t < TILE_ID_E)"
definition inBandE :: "int \<Rightarrow> bool" where "inBandE t = (TILE_ID_E \<le> t \<and> t < 1024)"
definition unbanded :: "int \<Rightarrow> bool" where "unbanded t = (1024 \<le> t \<and> t < TILE_ID_A5)"

definition tile_classes :: "(int \<Rightarrow> bool) list" where
  "tile_classes = [invisibleTile, inBandB, inBandC, inBandD, inBandE, unbanded,
     isTileA5, isTileA1, isTileA2, isTileA3, isTileA4]"

definition band_slot :: "int \<Rightarrow> int" where
  \<comment> \<open>the slot order A1, A2, A3, A4, A5, B, C, D, E, and 9 or 10 for an unbanded id\<close>
  "band_slot t =
     (if isTileA1 t then 0 else if isTileA2 t then 1 else if isTileA3 t then 2
      else if isTileA4 t then 3 else if isTileA5 t then 4 else if inBandB t then 5
      else if inBandC t then 6 else if inBandD t then 7 else if inBandE t then 8
      else if t < 1280 then 9 else 10)"

subsection \<open>The animation frame as the specification words it\<close>

definition spec_anim_col :: "int \<Rightarrow> int" where
  "spec_anim_col frame = (frame div 4) mod 3"

definition spec_anim_row :: "int \<Rightarrow> int" where
  "spec_anim_row frame = (if frame mod 4 = 3 then 1 else frame mod 4)"

definition spec_clock_value :: "real \<Rightarrow> int" where
  \<comment> \<open>a counter bounded at 12 that has advanced one step per 1/30 second of elapsed time\<close>
  "spec_clock_value elapsed = \<lfloor>elapsed * 30\<rfloor> mod 12"

definition representable :: "real \<Rightarrow> bool" where
  \<comment> \<open>x is a double: a significand below \<open>2 ^ 53\<close> at an exponent from \<open>- 1074\<close> on\<close>
  "representable x = (\<exists>m e. x = of_int m * 2 powi e \<and> \<bar>m\<bar> < 2 ^ 53 \<and> - 1074 \<le> e)"


subsection \<open>Well-formed geometries and examples of buffers\<close>

definition view_ok_f32 :: "Heap \<Rightarrow> View \<Rightarrow> bool" where
  \<comment> \<open>the view lies within its backing buffer\<close>
  "view_ok_f32 h a = (v_off a + v_len a \<le> length (f32 h (v_buf a)))"

definition view_ok_u32 :: "Heap \<Rightarrow> View \<Rightarrow> bool" where
  "view_ok_u32 h a = (v_off a + v_len a \<le> length (u32 h (v_buf a)))"

definition built_shape :: "Heap \<Rightarrow> MeshGeometry \<Rightarrow> bool" where
  \<comment> \<open>the shape that every geometry build establishes: two floats of position and of
      texture coordinate per vertex, six indices per four vertices, views within their
      buffers\<close>
  "built_shape h g = (v_len (uvs g) = v_len (positions g) \<and>
     4 * v_len (indices g) = 3 * v_len (positions g) \<and>
     view_ok_f32 h (positions g) \<and> view_ok_f32 h (uvs g) \<and> view_ok_u32 h (indices g))"

definition below :: "nat \<Rightarrow> nat set \<Rightarrow> View \<Rightarrow> Heap \<Rightarrow> bool" where
  \<comment> \<open>the elements of an index array at the places in S are less than N\<close>
  "below N S a h = (\<forall>k \<in> S. k < v_len a \<longrightarrow> unat (u32 h (v_buf a) ! (v_off a + k)) < N)"

definition empty_heap :: Heap where
  "empty_heap = \<lparr>f32 = (\<lambda>_. []), u32 = (\<lambda>_. []), next_buf = 0\<rparr>"

definition example_options :: TileOptions where
  "example_options = no_options\<lparr>opt_u := Some 96, opt_v := Some 48, opt_tileWidth := Some 48,
     opt_tileHeight := Some 48\<rparr>"

definition example_buffer1 :: Tilemap where
  \<comment> \<open>a buffer of one command\<close>
  "example_buffer1 = snd (Tilemap_tile None 0 0 example_options (Tilemap_new example_texture))"

definition example_buffer2 :: Tilemap where
  \<comment> \<open>a buffer of two commands\<close>
  "example_buffer2 = snd (Tilemap_tile None 48 0 example_options example_buffer1)"

definition built1 :: "MeshGeometry \<times> Heap" where
  \<comment> \<open>the first build of the buffer of one command\<close>
  "built1 = computeGeometriesBatched example_buffer1 None empty_heap"

definition built2 :: "MeshGeometry \<times> Heap" where
  "built2 = computeGeometriesBatched example_buffer2 None empty_heap"

section \<open>Sequencing\<close>

lemma forEach_invariant:
  assumes "\<And>x t. P t \<Longrightarrow> P (snd (f x t))" and "P s"
  shows "P (snd (forEach xs f s))"
  using assms(2)
proof (induction xs arbitrary: s)
  case Nil
  then show ?case by simp
next
  case (Cons x xs)
  show ?case
  proof (cases "fst (f x s)")
    case None
    then show ?thesis using Cons.IH [of "snd (f x s)"] assms(1) [OF Cons.prems, of x]
      by (simp add: andThen_def)
  next
    case (Some e)
    then show ?thesis using assms(1) [OF Cons.prems, of x] by (simp add: andThen_def)
  qed
qed

lemma andThen_invariant:
  assumes "P (snd r)" and "\<And>t. P t \<Longrightarrow> P (snd (f t))"
  shows "P (snd (andThen r f))"
  using assms by (cases "fst r") (simp_all add: andThen_def)

section \<open>Rounding to doubles\<close>

lemma two_powi_pos: "0 < (2::real) powi k"
  by (simp add: zero_less_power_int)

lemma two_powi_add: "(2::real) powi (a + b) = 2 powi a * 2 powi b"
  by (simp add: power_int_add)

lemma two_powi_diff: "(2::real) powi (a - b) = 2 powi a / 2 powi b"
  by (simp add: power_int_diff)

lemma two_powi_less_iff: "(2::real) powi a < 2 powi b \<longleftrightarrow> a < b"
proof
  assume l: "(2::real) powi a < 2 powi b"
  show "a < b"
  proof (rule ccontr)
    assume "\<not> a < b"
    then have "(2::real) powi b \<le> 2 powi a" by (intro power_int_increasing) simp_all
    with l show False by simp
  qed
next
  assume "a < b"
  then show "(2::real) powi a < 2 powi b" by (intro power_int_strict_increasing) simp_all
qed

lemma two_powi_le_iff: "(2::real) powi a \<le> 2 powi b \<longleftrightarrow> a \<le> b"
  using two_powi_less_iff [of b a] by (simp add: not_less [symmetric])

lemma two_powi_nat: "0 \<le> d \<Longrightarrow> (2::real) powi d = of_int (2 ^ nat d)"
  by (simp add: power_int_nonneg_exp)

lemma two_powi_shift: "a = int n + b \<Longrightarrow> (2::real) ^ n * 2 powi b = 2 powi a"
  by (simp add: power_int_add)

lemma binade_iff:
  assumes "x \<noteq> 0"
  shows "binade x = k \<longleftrightarrow> 2 powi k \<le> \<bar>x\<bar> \<and> \<bar>x\<bar> < 2 powi (k + 1)"
proof -
  have "(2::real) powr (of_int j) = 2 powi j" for j by (simp add: powr_real_of_int')
  from this [of k] this [of "k + 1"] show ?thesis
    using floor_log_eq_powr_iff [of "\<bar>x\<bar>" 2 k] assms by (simp add: binade_def)
qed

lemma binade_bounds:
  assumes "x \<noteq> 0"
  shows "2 powi (binade x) \<le> \<bar>x\<bar>" "\<bar>x\<bar> < 2 powi (binade x + 1)"
  using binade_iff [OF assms, of "binade x"] by simp_all

lemma fl_in_binade:
  assumes "2 powi k \<le> \<bar>x\<bar>" and "\<bar>x\<bar> < 2 powi (k + 1)"
  shows "fl x = of_int (rne (x / 2 powi (max k (- 1022) - 52))) * 2 powi (max k (- 1022) - 52)"
proof -
  have "0 < \<bar>x\<bar>" using assms(1) two_powi_pos [of k] by linarith
  then have x: "x \<noteq> 0" by simp
  then have "binade x = k" using assms by (simp add: binade_iff)
  then show ?thesis using x by (simp add: fl_def ulp_def)
qed

lemma rne_cases: "rne y = \<lfloor>y\<rfloor> \<or> rne y = \<lfloor>y\<rfloor> + 1"
  by (simp add: rne_def Let_def)

lemma rne_of_int: "rne (of_int m) = m"
  by (simp add: rne_def)

lemma rne_ge:
  assumes "of_int k \<le> y"
  shows "k \<le> rne y"
proof -
  have "k \<le> \<lfloor>y\<rfloor>" using assms by (simp add: le_floor_iff)
  then show ?thesis using rne_cases [of y] by linarith
qed

lemma rne_le:
  assumes "y \<le> of_int k"
  shows "rne y \<le> k"
proof (cases "y = of_int k")
  case True
  then show ?thesis by (simp add: rne_of_int)
next
  case False
  then have "y < of_int k" using assms by simp
  then have "\<lfloor>y\<rfloor> < k" by (simp add: floor_less_iff)
  then show ?thesis using rne_cases [of y] by auto
qed

lemma rne_error: "\<bar>of_int (rne y) - y\<bar> \<le> 1 / 2"
proof -
  have "of_int \<lfloor>y\<rfloor> \<le> y" "y < of_int \<lfloor>y\<rfloor> + 1" by linarith+
  then show ?thesis by (auto simp add: rne_def Let_def)
qed

lemma fl_zero: "fl 0 = 0"
  by (simp add: fl_def)

lemma scale_up:
  assumes "j \<le> e"
  shows "of_int m * (2::real) powi e / 2 powi j = of_int (m * 2 ^ nat (e - j))"
proof -
  have "(2::real) powi e / 2 powi j = 2 powi (e - j)" by (simp add: two_powi_diff)
  also have "\<dots> = of_int (2 ^ nat (e - j))" using assms by (simp add: two_powi_nat)
  finally have "of_int m * ((2::real) powi e / 2 powi j) = of_int m * of_int (2 ^ nat (e - j))"
    by (simp only:)
  then show ?thesis by (simp only: of_int_mult times_divide_eq_right)
qed

text \<open>A double is rounded to itself.\<close>

lemma fl_representable:
  assumes "representable x"
  shows "fl x = x"
proof (cases "x = 0")
  case True
  then show ?thesis by (simp add: fl_zero)
next
  case False
  from assms obtain m e where x: "x = of_int m * 2 powi e" and m: "\<bar>m\<bar> < 2 ^ 53"
    and e: "- 1074 \<le> e"
    by (auto simp: representable_def)
  define k where "k = binade x"
  define u where "u = max k (- 1022) - 52"
  have b: "2 powi k \<le> \<bar>x\<bar>" "\<bar>x\<bar> < 2 powi (k + 1)"
    using binade_bounds [OF False] by (simp_all add: k_def)
  have "\<bar>x\<bar> = of_int \<bar>m\<bar> * 2 powi e" by (simp add: x abs_mult)
  also have "\<dots> < of_int (2 ^ 53) * 2 powi e"
    using m by (intro mult_strict_right_mono) (simp_all add: two_powi_pos)
  also have "\<dots> = 2 powi (53 + e)" by (simp add: two_powi_add)
  finally have "(2::real) powi k < 2 powi (53 + e)" using b(1) by simp
  then have "k - 52 \<le> e" by (simp add: two_powi_less_iff)
  then have "u \<le> e" using e by (simp add: u_def)
  then have s: "x / 2 powi u = of_int (m * 2 ^ nat (e - u))"
    unfolding x by (rule scale_up)
  have "fl x = of_int (rne (x / 2 powi u)) * 2 powi u"
    unfolding u_def by (rule fl_in_binade [OF b])
  also have "\<dots> = x / 2 powi u * 2 powi u"
    by (simp only: s rne_of_int)
  also have "\<dots> = x" by simp
  finally show ?thesis .
qed

lemma representableI:
  "x = of_int m * 2 powi e \<Longrightarrow> \<bar>m\<bar> < 2 ^ 53 \<Longrightarrow> - 1074 \<le> e \<Longrightarrow> representable x"
  unfolding representable_def by blast

lemma representable_of_int: "\<bar>z\<bar> < 2 ^ 53 \<Longrightarrow> representable (of_int z)"
  by (rule representableI [of _ z 0]) simp_all

lemma representable_half: "\<bar>z\<bar> < 2 ^ 53 \<Longrightarrow> representable (of_int z / 2)"
  by (rule representableI [of _ z "- 1"]) (simp_all add: power_int_minus)

lemma representable_double:
  assumes "representable x"
  shows "representable (x * 2)"
proof -
  from assms obtain m e where x: "x = of_int m * 2 powi e" and m: "\<bar>m\<bar> < 2 ^ 53"
    and e: "- 1074 \<le> e"
    by (auto simp: representable_def)
  have "x * 2 = of_int m * 2 powi (e + 1)" by (simp add: x two_powi_add)
  then show ?thesis by (rule representableI) (use m e in simp_all)
qed

lemma significand_upper:
  fixes x :: real
  assumes "\<bar>x\<bar> < 2 powi (k + 1)" and "k - 52 \<le> u"
  shows "\<bar>x / 2 powi u\<bar> < 2 ^ 53"
proof -
  have e: "\<bar>x / 2 powi u\<bar> = \<bar>x\<bar> / 2 powi u" by (simp add: abs_divide)
  have "\<bar>x\<bar> / 2 powi u < 2 powi (k + 1) / 2 powi u"
    using assms(1) by (intro divide_strict_right_mono) (simp_all add: two_powi_pos)
  also have "\<dots> = 2 powi (k + 1 - u)" by (simp add: two_powi_diff)
  also have "\<dots> \<le> 2 powi 53"
  proof -
    have "k + 1 - u \<le> 53" using assms(2) by simp
    then show ?thesis by (simp only: two_powi_le_iff)
  qed
  finally show ?thesis by (simp add: e)
qed

lemma significand_lower:
  fixes x :: real
  assumes "2 powi k \<le> \<bar>x\<bar>"
  shows "2 ^ 52 \<le> \<bar>x / 2 powi (k - 52)\<bar>"
proof -
  have e: "\<bar>x / 2 powi (k - 52)\<bar> = \<bar>x\<bar> / 2 powi (k - 52)" by (simp add: abs_divide)
  have "(2::real) ^ 52 = 2 powi k / 2 powi (k - 52)"
    using two_powi_diff [of k "k - 52"] by simp
  also have "\<dots> \<le> \<bar>x\<bar> / 2 powi (k - 52)"
    using assms(1) by (intro divide_right_mono) (simp_all add: two_powi_pos)
  finally show ?thesis by (simp add: e)
qed

text \<open>Rounding keeps the sign, and steps over no power of two.\<close>

lemma fl_nonneg:
  assumes "0 \<le> x"
  shows "0 \<le> fl x"
proof (cases "x = 0")
  case True
  then show ?thesis by (simp add: fl_zero)
next
  case False
  have "0 \<le> x / ulp x" using assms by (simp add: ulp_def)
  then have "0 \<le> rne (x / ulp x)" using rne_ge [of 0 "x / ulp x"] by simp
  then show ?thesis using False by (simp add: fl_def ulp_def)
qed

lemma fl_ge_powi:
  assumes "2 powi j \<le> x" and "- 1022 \<le> j"
  shows "2 powi j \<le> fl x"
proof -
  have pos: "0 < x" using assms two_powi_pos [of j] by linarith
  define k where "k = binade x"
  have b: "2 powi k \<le> \<bar>x\<bar>" "\<bar>x\<bar> < 2 powi (k + 1)"
    using binade_bounds [of x] pos by (simp_all add: k_def)
  have "(2::real) powi j < 2 powi (k + 1)" using assms b(2) pos by simp
  then have jk: "j \<le> k" by (simp add: two_powi_less_iff)
  then have u: "max k (- 1022) - 52 = k - 52" using assms(2) by simp
  have "of_int (2 ^ 52) \<le> x / 2 powi (k - 52)"
    using significand_lower [OF b(1)] pos by (simp add: abs_divide)
  then have "2 ^ 52 \<le> rne (x / 2 powi (k - 52))" by (rule rne_ge)
  then have "(2::real) ^ 52 \<le> of_int (rne (x / 2 powi (k - 52)))"
    by (metis of_int_le_iff of_int_numeral of_int_power)
  then have "(2::real) ^ 52 * 2 powi (k - 52) \<le> of_int (rne (x / 2 powi (k - 52))) * 2 powi (k - 52)"
    by (intro mult_right_mono) simp_all
  moreover have "(2::real) ^ 52 * 2 powi (k - 52) = 2 powi k"
    by (rule two_powi_shift) simp
  ultimately have "(2::real) powi k \<le> of_int (rne (x / 2 powi (k - 52))) * 2 powi (k - 52)"
    by (simp only:)
  then have "2 powi k \<le> fl x" by (simp only: fl_in_binade [OF b] u)
  moreover have "(2::real) powi j \<le> 2 powi k" using jk by (simp add: two_powi_le_iff)
  ultimately show ?thesis by simp
qed

lemma fl_le_powi:
  assumes "0 \<le> x" and "x \<le> 2 powi j" and "- 1022 \<le> j"
  shows "fl x \<le> 2 powi j"
proof (cases "x = 0")
  case True
  then show ?thesis using two_powi_pos [of j] by (simp add: fl_zero)
next
  case False
  then have pos: "0 < x" using assms(1) by simp
  define k where "k = binade x"
  define u where "u = max k (- 1022) - 52"
  have b: "2 powi k \<le> \<bar>x\<bar>" "\<bar>x\<bar> < 2 powi (k + 1)"
    using binade_bounds [of x] pos by (simp_all add: k_def)
  have "(2::real) powi k \<le> 2 powi j" using b(1) pos assms(2) by simp
  then have kj: "k \<le> j" by (simp add: two_powi_le_iff)
  have "x / 2 powi u \<le> of_int (2 ^ nat (j - u))"
  proof -
    have "x / 2 powi u \<le> 2 powi j / 2 powi u"
      using assms(2) by (intro divide_right_mono) (simp_all add: two_powi_pos)
    also have "\<dots> = 2 powi (j - u)" by (simp add: two_powi_diff)
    also have "\<dots> = of_int (2 ^ nat (j - u))"
      using kj assms(3) by (intro two_powi_nat) (simp add: u_def)
    finally show ?thesis .
  qed
  then have "rne (x / 2 powi u) \<le> 2 ^ nat (j - u)" by (rule rne_le)
  then have "of_int (rne (x / 2 powi u)) \<le> (of_int (2 ^ nat (j - u)) :: real)"
    by (simp only: of_int_le_iff)
  also have "\<dots> = 2 powi (j - u)"
    using kj assms(3) by (intro two_powi_nat [symmetric]) (simp add: u_def)
  finally have "of_int (rne (x / 2 powi u)) * 2 powi u \<le> (2::real) powi (j - u) * 2 powi u"
    by (intro mult_right_mono) (simp_all add: two_powi_pos less_imp_le)
  also have "\<dots> = 2 powi j" using two_powi_add [of "j - u" u] by simp
  finally show ?thesis by (simp only: fl_in_binade [OF b] u_def)
qed

text \<open>The result of a rounding is a double, within half a spacing of the real.\<close>

lemma representable_fl: "representable (fl x)"
proof (cases "x = 0")
  case True
  have "representable (of_int 0)" by (rule representable_of_int) simp
  then show ?thesis using True by (simp add: fl_zero)
next
  case False
  define k where "k = binade x"
  define u where "u = max k (- 1022) - 52"
  define y where "y = x / 2 powi u"
  define r where "r = rne y"
  have b: "2 powi k \<le> \<bar>x\<bar>" "\<bar>x\<bar> < 2 powi (k + 1)"
    using binade_bounds [OF False] by (simp_all add: k_def)
  have f: "fl x = of_int r * 2 powi u"
    unfolding r_def y_def u_def by (rule fl_in_binade [OF b])
  have u: "- 1074 \<le> u" "k - 52 \<le> u" by (simp_all add: u_def)
  have s: "\<bar>y\<bar> < 2 ^ 53" unfolding y_def by (rule significand_upper [OF b(2) u(2)])
  have "y \<le> of_int (2 ^ 53)" "of_int (- (2 ^ 53)) \<le> y"
    using s by simp_all
  then have "r \<le> 2 ^ 53" "- (2 ^ 53) \<le> r"
    unfolding r_def by (simp_all only: rne_le rne_ge)
  then consider "\<bar>r\<bar> < 2 ^ 53" | "r = 2 ^ 53" | "r = - (2 ^ 53)" by linarith
  then show ?thesis
  proof cases
    case 1
    show ?thesis by (rule representableI [OF f 1 u(1)])
  next
    case 2
    have "fl x = of_int (2 ^ 52) * (2::real) powi (u + 1)"
      by (simp add: f 2 two_powi_add)
    then show ?thesis by (rule representableI) (use u(1) in simp_all)
  next
    case 3
    have "fl x = of_int (- (2 ^ 52)) * (2::real) powi (u + 1)"
      by (simp add: f 3 two_powi_add)
    then show ?thesis by (rule representableI) (use u(1) in simp_all)
  qed
qed

lemma fl_error: "\<bar>fl x - x\<bar> \<le> ulp x / 2"
proof (cases "x = 0")
  case True
  then show ?thesis by (simp add: fl_zero ulp_def two_powi_pos less_imp_le)
next
  case False
  have p: "0 < ulp x" by (simp add: ulp_def two_powi_pos)
  have "fl x - x = (of_int (rne (x / ulp x)) - x / ulp x) * ulp x"
    using False p by (simp add: fl_def algebra_simps)
  then have "\<bar>fl x - x\<bar> = \<bar>of_int (rne (x / ulp x)) - x / ulp x\<bar> * ulp x"
    using p by (simp add: abs_mult)
  also have "\<dots> \<le> 1 / 2 * ulp x"
    using p by (intro mult_right_mono rne_error) simp
  finally show ?thesis by simp
qed

text \<open>
  What is left of a double after its whole halves is a double: the subtraction that takes
  the counted intervals of 1/2 from the accumulated time is exact.
\<close>

lemma representable_leftover:
  assumes "representable a" and "0 \<le> a"
  shows "representable (a - of_int \<lfloor>a * 2\<rfloor> / 2)"
proof -
  from assms obtain m e where a: "a = of_int m * 2 powi e" and m: "\<bar>m\<bar> < 2 ^ 53"
    and e: "- 1074 \<le> e"
    by (auto simp: representable_def)
  define n where "n = \<lfloor>a * 2\<rfloor>"
  have lo: "of_int n \<le> a * 2" and hi: "a * 2 < of_int n + 1"
    unfolding n_def by linarith+
  have n0: "0 \<le> n" using assms(2) by (simp add: n_def)
  show ?thesis
  proof (cases "- 1 \<le> e")
    case True
    have "a * 2 = of_int m * 2 powi e / 2 powi (- 1)" by (simp add: a power_int_minus)
    also have "\<dots> = of_int (m * 2 ^ nat (e - (- 1)))" using True by (rule scale_up)
    finally have "of_int n = a * 2" unfolding n_def by (simp only: floor_of_int)
    then have "a - of_int n / 2 = of_int 0" by simp
    moreover have "representable (of_int 0)" by (rule representable_of_int) simp
    ultimately show ?thesis by (simp only: n_def)
  next
    case False
    define d where "d = nat (- 1 - e)"
    have h: "(1 / 2 :: real) = of_int (2 ^ d) * 2 powi e"
    proof -
      have "(2::real) powi (- 1) / 2 powi e = 2 powi (- 1 - e)" by (simp add: two_powi_diff)
      also have "\<dots> = of_int (2 ^ d)" using False unfolding d_def by (intro two_powi_nat) simp
      finally have "(2::real) powi (- 1) = of_int (2 ^ d) * 2 powi e"
        using two_powi_pos [of e] by (simp add: field_simps)
      then show ?thesis by (simp add: power_int_minus)
    qed
    define m' where "m' = m - n * 2 ^ d"
    have r: "a - of_int n / 2 = of_int m' * 2 powi e"
    proof -
      have "of_int n / 2 = of_int n * (1 / 2 :: real)" by simp
      also have "\<dots> = of_int n * (of_int (2 ^ d) * 2 powi e)" by (simp only: h)
      finally show ?thesis by (simp add: a m'_def algebra_simps)
    qed
    have "0 \<le> a - of_int n / 2" using lo by simp
    then have "0 \<le> of_int m' * (2::real) powi e" by (simp only: r)
    then have "0 \<le> (of_int m' :: real)"
      using two_powi_pos [of e] by (simp add: zero_le_mult_iff)
    then have m0: "0 \<le> m'" by simp
    have "m' \<le> m" using n0 by (simp add: m'_def)
    then have "\<bar>m'\<bar> < 2 ^ 53" using m0 m by simp
    then have "representable (of_int m' * 2 powi e)"
      using e by (intro representableI [OF refl])
    then show ?thesis by (simp only: r [symmetric] n_def)
  qed
qed

section \<open>Basic facts\<close>

lemmas tile_ids = TILE_ID_B_def TILE_ID_C_def TILE_ID_D_def TILE_ID_E_def TILE_ID_A5_def
  TILE_ID_A1_def TILE_ID_A2_def TILE_ID_A3_def TILE_ID_A4_def TILE_ID_MAX_def

lemmas band_defs = invisibleTile_def inBandB_def inBandC_def inBandD_def inBandE_def unbanded_def
  isVisibleTile_def isTileA1_def isTileA2_def isTileA3_def isTileA4_def isTileA5_def isAutotile_def

lemma js_rem_nonneg: "0 \<le> a \<Longrightarrow> js_rem a b = a mod \<bar>b\<bar>"
  by (simp add: js_rem_def sgn_if)

section \<open>What painting leaves alone\<close>

lemma frame_set_layer: "frame_of (set_layer r l s) = frame_of s"
  by (cases r) (simp_all add: set_layer_def frame_of_def)

lemma frame_drawOn: "frame_of (snd (drawOn r cs s)) = frame_of s"
  by (simp add: drawOn_def frame_set_layer split: option.splits)

lemma position_tile: "position (snd (CompositeTilemap_tile r x y opts c)) = position c"
  by (simp add: CompositeTilemap_tile_def tile_child_def Let_def split: TileRef.splits option.splits)

lemma position_perform: "position (snd (perform cs l)) = position l"
proof -
  have "position (snd (forEach (fst cs)
      (\<lambda>c. CompositeTilemap_tile (NumRef (tc_ref c)) (tc_x c) (tc_y c) (tc_options c)) l)) = position l"
    by (rule forEach_invariant [where P = "\<lambda>t. position t = position l"]) (simp_all add: position_tile)
  then show ?thesis
    by (simp add: perform_def andThen_def split: option.splits)
qed

lemma list_all_update: "list_all P xs \<Longrightarrow> P y \<Longrightarrow> list_all P (xs[k := y])"
  by (induction xs arbitrary: k) (auto split: nat.splits)

lemma placed_drawOn: "placed p s \<Longrightarrow> placed p (snd (drawOn r cs s))"
proof (cases "get_layer s r")
  case None
  then show "placed p s \<Longrightarrow> ?thesis" by (simp add: drawOn_def)
next
  case (Some l)
  assume a: "placed p s"
  from Some a have "position l = p"
    by (cases r) (auto simp: get_layer_def nth_opt_def placed_def list_all_length split: if_splits)
  then have "position (snd (perform cs l)) = p" by (simp add: position_perform)
  with a Some show ?thesis
    by (cases r) (auto simp: drawOn_def set_layer_def placed_def list_all_update)
qed

lemma paintTiles_keeps:
  assumes "frame_of s = F \<and> placed p s"
  shows "frame_of (snd (paintTiles sx sy x y s)) = F \<and> placed p (snd (paintTiles sx sy x y s))"
  unfolding paintTiles_def
  by (rule forEach_invariant [where P = "\<lambda>t. frame_of t = F \<and> placed p t"])
     (simp_all add: frame_drawOn placed_drawOn assms)

lemma paintLoop_keeps:
  assumes "frame_of s = F \<and> placed p s"
  shows "frame_of (snd (forEach ys (\<lambda>y. forEach xs (\<lambda>x. paintTiles sx sy x y)) s)) = F \<and>
         placed p (snd (forEach ys (\<lambda>y. forEach xs (\<lambda>x. paintTiles sx sy x y)) s))"
  by (rule forEach_invariant [where P = "\<lambda>t. frame_of t = F \<and> placed p t"],
      rule forEach_invariant [where P = "\<lambda>t. frame_of t = F \<and> placed p t"],
      rule paintTiles_keeps) (simp_all add: assms)

lemma frame_clearLayers: "frame_of (clearLayers s) = frame_of s"
  by (simp add: clearLayers_def frame_of_def)

lemma placed_clearLayers: "placed p s \<Longrightarrow> placed p (clearLayers s)"
  by (simp add: clearLayers_def placed_def CompositeTilemap_clear_def list_all_iff)

lemma paintAll_frame: "paintAll (frame_of s) = paintAll s"
  by (simp add: frame_of_def)

lemma paintAllTiles_keeps:
  assumes "frame_of s = F \<and> placed p s"
  shows "frame_of (snd (paintAllTiles sx sy s)) = F \<and> placed p (snd (paintAllTiles sx sy s))"
  unfolding paintAllTiles_def Let_def
  using assms
  by (auto intro!: paintLoop_keeps simp: frame_clearLayers placed_clearLayers)

lemma frame_paintAllTiles: "frame_of (snd (paintAllTiles sx sy s)) = frame_of s"
proof -
  have "placed (position (shadowLayer s)) (s\<lparr>lowerLayer := [], upperLayer := []\<rparr>)"
    by (simp add: placed_def)
  have a: "frame_of (snd (paintTiles a b x y t)) = F" if "frame_of t = F" for a b x y t F
    unfolding paintTiles_def
    by (rule forEach_invariant [where P = "\<lambda>t. frame_of t = F"]) (simp_all add: frame_drawOn that)
  have b: "frame_of (snd (forEach ys (\<lambda>y. forEach xs (\<lambda>x. paintTiles a b x y)) t)) = frame_of t"
    for a b xs ys t
    by (rule forEach_invariant [where P = "\<lambda>u. frame_of u = frame_of t"],
        rule forEach_invariant [where P = "\<lambda>u. frame_of u = frame_of t"], rule a) simp_all
  show ?thesis
    by (simp add: paintAllTiles_def Let_def b frame_clearLayers)
qed

lemma placed_updateLayerPositions:
  "placed (of_int sx * tileWidth s - fst (rounded_origin s),
           of_int sy * tileHeight s - snd (rounded_origin s)) (updateLayerPositions sx sy s)"
  by (simp add: placed_def updateLayerPositions_def Let_def list_all_iff)

lemma frame_updateLayerPositions: "frame_of (updateLayerPositions sx sy s) = frame_of s"
  by (simp add: updateLayerPositions_def Let_def frame_of_def)

lemma map_position_id: "list_all (\<lambda>l. position l = p) xs \<Longrightarrow> map (\<lambda>l. l\<lparr>position := p\<rparr>) xs = xs"
  by (induction xs) auto

lemma frame_fields:
  assumes "frame_of t = frame_of s"
  shows "tileWidth t = tileWidth s" "tileHeight t = tileHeight s" "origin t = origin s"
    "roundPixels t = roundPixels s" "margin t = margin s" "paintAll t = paintAll s"
    "lastStartX t = lastStartX s" "lastStartY t = lastStartY s" "displayList t = displayList s"
  using arg_cong [OF assms, of tileWidth] arg_cong [OF assms, of tileHeight]
    arg_cong [OF assms, of origin] arg_cong [OF assms, of roundPixels]
    arg_cong [OF assms, of margin] arg_cong [OF assms, of paintAll]
    arg_cong [OF assms, of lastStartX] arg_cong [OF assms, of lastStartY]
    arg_cong [OF assms, of displayList]
  by (simp_all add: frame_of_def)

lemma updateLayerPositions_placed_id:
  assumes "placed (of_int sx * tileWidth s - fst (rounded_origin s),
           of_int sy * tileHeight s - snd (rounded_origin s)) s"
  shows "updateLayerPositions sx sy s = s"
  using assms by (simp add: updateLayerPositions_def Let_def placed_def map_position_id)

lemma rounded_origin_frame:
  assumes "frame_of t = frame_of s"
  shows "rounded_origin t = rounded_origin s"
  using frame_fields(3,4) [OF assms] by (simp add: rounded_origin_def)

section \<open>Repainting twice\<close>

text \<open>
  Claim C3. Repaint is idempotent: when \<open>repaint(force = false)\<close> is called twice in
  succession, nothing (origin, map data, sizes) being changed in between, the second call
  mutates nothing: it throws nothing and returns the renderer exactly as the first call
  left it, so the command list of every buffer of every composite layer keeps its content
  and its length. This holds whether or not the first call painted, and also when the
  first call ended in an exception. Tile sizes are not zero.
\<close>

theorem repaint_twice_no_mutation:
  assumes "tileWidth s \<noteq> 0" and "tileHeight s \<noteq> 0"
  shows "repaint False (snd (repaint False s)) = (None, snd (repaint False s))"
proof (cases "paintAll s")
  case True
  define s1 where "s1 = updateLayerPositions 0 0 s"
  have r1: "repaint False s = (None, s1)" using True by (simp add: repaint_def s1_def Let_def)
  have f: "frame_of s1 = frame_of s" by (simp add: s1_def frame_updateLayerPositions)
  have "placed (of_int 0 * tileWidth s - fst (rounded_origin s),
           of_int 0 * tileHeight s - snd (rounded_origin s)) s1"
    unfolding s1_def by (rule placed_updateLayerPositions)
  then have "placed (of_int 0 * tileWidth s1 - fst (rounded_origin s1),
           of_int 0 * tileHeight s1 - snd (rounded_origin s1)) s1"
    by (simp only: frame_fields [OF f] rounded_origin_frame [OF f])
  then have "updateLayerPositions 0 0 s1 = s1" by (rule updateLayerPositions_placed_id)
  moreover have "paintAll s1" using True frame_fields(6) [OF f] by simp
  ultimately have "repaint False s1 = (None, s1)" by (simp add: repaint_def Let_def)
  then show ?thesis by (simp only: r1 snd_conv)
next
  case False
  define sx where "sx = \<lfloor>(fst (rounded_origin s) - margin s) / tileWidth s\<rfloor>"
  define sy where "sy = \<lfloor>(snd (rounded_origin s) - margin s) / tileHeight s\<rfloor>"
  define p where "p = (of_int sx * tileWidth s - fst (rounded_origin s),
           of_int sy * tileHeight s - snd (rounded_origin s))"
  define s1 where "s1 = updateLayerPositions sx sy s"
  define s1' where "s1' = s1\<lparr>lastStartX := Some sx, lastStartY := Some sy\<rparr>"
  define s2 where "s2 = snd (repaint False s)"
  have f1: "frame_of s1 = frame_of s" by (simp add: s1_def frame_updateLayerPositions)
  have p1: "placed p s1" unfolding p_def s1_def by (rule placed_updateLayerPositions)
  have p1': "placed p s1'" using p1 by (simp add: placed_def s1'_def)
  have s2: "frame_of s2 = frame_of s1' \<and> placed p s2"
  proof (cases "lastStartX s1 \<noteq> Some sx \<or> lastStartY s1 \<noteq> Some sy")
    case True
    then have "s2 = snd (paintAllTiles sx sy s1')"
      using False by (simp add: s2_def repaint_def Let_def sx_def sy_def s1_def s1'_def)
    then show ?thesis using paintAllTiles_keeps [of s1' "frame_of s1'" p sx sy] p1' by simp
  next
    case c: False
    then have "s2 = s1" using False by (simp add: s2_def repaint_def Let_def sx_def sy_def s1_def)
    moreover from c have "s1' = s1" by (simp add: s1'_def)
    ultimately show ?thesis using p1 by simp
  qed
  have g: "tileWidth s1' = tileWidth s" "tileHeight s1' = tileHeight s" "margin s1' = margin s"
    "rounded_origin s1' = rounded_origin s" "paintAll s1' = paintAll s"
    "lastStartX s1' = Some sx" "lastStartY s1' = Some sy"
    using frame_fields [OF f1] rounded_origin_frame [OF f1]
    by (simp_all add: s1'_def rounded_origin_def)
  have f2: "frame_of s2 = frame_of s1'" using s2 by simp
  have fs: "tileWidth s2 = tileWidth s" "tileHeight s2 = tileHeight s" "margin s2 = margin s"
    "rounded_origin s2 = rounded_origin s" "paintAll s2 = paintAll s"
    "lastStartX s2 = Some sx" "lastStartY s2 = Some sy"
    using frame_fields [OF f2] rounded_origin_frame [OF f2] g by simp_all
  have "placed (of_int sx * tileWidth s2 - fst (rounded_origin s2),
           of_int sy * tileHeight s2 - snd (rounded_origin s2)) s2"
    using s2 by (simp only: fs p_def)
  then have "updateLayerPositions sx sy s2 = s2" by (rule updateLayerPositions_placed_id)
  then have "repaint False s2 = (None, s2)"
    using False by (simp add: repaint_def Let_def fs sx_def [symmetric] sy_def [symmetric])
  then show ?thesis by (simp add: s2_def)
qed

lemma example_repaint_paints:
  "length (pointsBuf (children (lowerLayer (snd (repaint False example_renderer)) ! 0) ! 1)) = 4 \<and>
   lastStartX (snd (repaint False example_renderer)) = Some (- 1)"
  by code_simp

theorem repaint_twice_no_mutation_witness:
  "tileWidth example_renderer \<noteq> 0 \<and> tileHeight example_renderer \<noteq> 0 \<and>
   length (pointsBuf (children (lowerLayer (snd (repaint False example_renderer)) ! 0) ! 1)) = 4 \<and>
   repaint False (snd (repaint False example_renderer)) =
     (None, snd (repaint False example_renderer))"
proof -
  have w: "tileWidth example_renderer \<noteq> 0" and h: "tileHeight example_renderer \<noteq> 0"
    by (simp_all add: example_renderer_def setData_def ShaderTilemap_fields_def)
  from repaint_twice_no_mutation [OF w h] w h example_repaint_paints show ?thesis
    by blast
qed

section \<open>The display order of the layers\<close>

lemma displayList_paintAllTiles: "displayList (snd (paintAllTiles sx sy s)) = displayList s"
  using frame_fields(9) [OF frame_paintAllTiles] .

lemma displayList_updateLayerPositions: "displayList (updateLayerPositions sx sy s) = displayList s"
  by (simp add: updateLayerPositions_def Let_def)

lemma displayList_repaint: "displayList (snd (repaint force s)) = displayList s"
  by (simp add: repaint_def Let_def displayList_paintAllTiles displayList_updateLayerPositions)

lemma displayList_updateBitmaps: "displayList (snd (updateBitmaps s)) = displayList s"
  by (simp add: updateBitmaps_def Let_def split: option.splits)

lemma displayList_refresh: "displayList (snd (refresh s)) = displayList s"
proof (cases "lastBitmapLength s \<noteq> int (length (bitmaps s))")
  case True
  have "displayList (snd (andThen (updateBitmaps (s\<lparr>lastBitmapLength := int (length (bitmaps s))\<rparr>))
             (repaint True))) = displayList s"
    by (rule andThen_invariant [where P = "\<lambda>t. displayList t = displayList s"])
       (simp_all add: displayList_updateBitmaps displayList_repaint)
  then show ?thesis using True by (simp add: refresh_def)
next
  case False
  then show ?thesis by (simp add: refresh_def displayList_repaint)
qed

lemma displayList_clearLayers: "displayList (clearLayers s) = displayList s"
  by (simp add: clearLayers_def)

text \<open>
  Claim C10. Every renderer keeps its nine composite layers in the display order
  lower[0], lower[1], shadow layer, lower[2], lower[3], upper[0], upper[1], upper[2],
  upper[3]: the constructor establishes this order, and no repaint, full paint, clear
  phase or refresh changes it. The shadow layer is therefore drawn above lower layers 0
  and 1 and beneath lower layers 2 and 3 and every upper layer.
\<close>

theorem display_order_fixed:
  "displayList (snd (ShaderTilemap_new w h pa)) =
     [Lower 0, Lower 1, Shadow, Lower 2, Lower 3, Upper 0, Upper 1, Upper 2, Upper 3] \<and>
   displayList (snd (repaint force s)) = displayList s \<and>
   displayList (snd (paintAllTiles sx sy s)) = displayList s \<and>
   displayList (clearLayers s) = displayList s \<and>
   displayList (snd (refresh s)) = displayList s"
proof -
  have "displayList (snd (andThen (repaint True t) refresh)) = displayList t" for t
    by (rule andThen_invariant [where P = "\<lambda>u. displayList u = displayList t"])
       (simp_all add: displayList_refresh displayList_repaint)
  then have "displayList (snd (ShaderTilemap_new w h pa)) =
     [Lower 0, Lower 1, Shadow, Lower 2, Lower 3, Upper 0, Upper 1, Upper 2, Upper 3]"
    by (simp add: ShaderTilemap_new_def Let_def addChild_def ShaderTilemap_fields_def upt_rec)
  then show ?thesis
    by (simp add: displayList_repaint displayList_paintAllTiles displayList_clearLayers
        displayList_refresh)
qed

theorem display_order_fixed_witness:
  "displayList (snd (ShaderTilemap_new 96 96 False)) =
     [Lower 0, Lower 1, Shadow, Lower 2, Lower 3, Upper 0, Upper 1, Upper 2, Upper 3] \<and>
   displayList (snd (repaint True (snd (ShaderTilemap_new 96 96 False)))) =
     [Lower 0, Lower 1, Shadow, Lower 2, Lower 3, Upper 0, Upper 1, Upper 2, Upper 3]"
  using display_order_fixed [of 96 96 False True "snd (ShaderTilemap_new 96 96 False)"]
  by simp

section \<open>Routing a tile by slot number\<close>

text \<open>
  A tile call with an integer slot other than the shadow sentinel \<open>-1\<close> is the tile method
  of the buffer at the slot, of buffer 0 if there is none at the slot, and nothing at all
  on a layer without buffers. The buffer's tile method appends the command if it can make
  it, and throws otherwise, leaving the buffer as it was.
\<close>

lemma numeric_slot_routing:
  assumes "n \<noteq> - 1"
  shows "(0 \<le> n \<and> nat n < length (children c) \<longrightarrow>
           CompositeTilemap_tile (NumRef n) x y opts c = tile_child (nat n) None x y opts c) \<and>
         (\<not> (0 \<le> n \<and> nat n < length (children c)) \<and> children c \<noteq> [] \<longrightarrow>
           CompositeTilemap_tile (NumRef n) x y opts c = tile_child 0 None x y opts c) \<and>
         (children c = [] \<longrightarrow> CompositeTilemap_tile (NumRef n) x y opts c = (None, c))"
  using assms by (auto simp: CompositeTilemap_tile_def nth_opt_def)

lemma Tilemap_tile_appends:
  assumes "make_point (baseTexture tm) x y opts = Inr p"
  shows "fst (Tilemap_tile None x y opts tm) = None"
    and "pointsBuf (snd (Tilemap_tile None x y opts tm)) = pointsBuf tm @ [p]"
  using assms by (simp_all add: Tilemap_tile_def Let_def)

lemma Tilemap_tile_throws:
  assumes "make_point (baseTexture tm) x y opts = Inl e"
  shows "Tilemap_tile None x y opts tm = (Some e, tm)"
  using assms by (simp add: Tilemap_tile_def Let_def)

lemma make_point_texture:
  assumes "tex_frame t \<noteq> None" and "tex_orig t \<noteq> None"
  shows "\<exists>p. make_point t x y opts = Inr p"
proof -
  obtain f g where "tex_frame t = Some f" "tex_orig t = Some g" using assms by auto
  then show ?thesis
    by (simp add: make_point_def falsy_or_def read_field_def split: option.splits)
qed


section \<open>Slots of the bands\<close>



lemma div_256_between:
  fixes t :: int
  assumes "256 * k \<le> t" and "t < 256 * (k + 1)"
  shows "t div 256 = k"
proof -
  have "t div 256 \<ge> k" using assms(1) by (simp add: pos_le_divide_eq zdiv_mono1 [of "256 * k" t 256, simplified])
  moreover have "t div 256 < k + 1" using assms(2) by (simp add: div_less_iff_less_mult mult.commute)
  ultimately show ?thesis by simp
qed

lemma normal_slot:
  assumes "isVisibleTile t" and "\<not> isAutotile t" and "\<not> isTileA5 t"
  shows "5 + t div 256 = band_slot t"
proof -
  consider "inBandB t" | "inBandC t" | "inBandD t" | "inBandE t" | "1024 \<le> t \<and> t < 1280" | "1280 \<le> t \<and> t < 1536"
    using assms unfolding band_defs tile_ids by linarith
  then show ?thesis
  proof cases
    case 1 then show ?thesis using div_256_between [of 0 t] assms unfolding band_slot_def band_defs tile_ids by simp
  next
    case 2 then show ?thesis using div_256_between [of 1 t] assms unfolding band_slot_def band_defs tile_ids by simp
  next
    case 3 then show ?thesis using div_256_between [of 2 t] assms unfolding band_slot_def band_defs tile_ids by simp
  next
    case 4 then show ?thesis using div_256_between [of 3 t] assms unfolding band_slot_def band_defs tile_ids by simp
  next
    case 5 then show ?thesis using div_256_between [of 4 t] assms unfolding band_slot_def band_defs tile_ids by simp
  next
    case 6 then show ?thesis using div_256_between [of 5 t] assms unfolding band_slot_def band_defs tile_ids by simp
  qed
qed

lemma autotile_setNumber:
  assumes "isVisibleTile t" and "isAutotile t"
  shows "ab_setNumber (autotile_base s t) = band_slot t"
proof -
  consider "isTileA1 t" | "isTileA2 t" | "isTileA3 t" | "isTileA4 t"
    using assms unfolding band_defs tile_ids by linarith
  then show ?thesis
  proof cases
    case 1 then show ?thesis by (simp add: autotile_base_def Let_def band_slot_def)
  next
    case 2 then show ?thesis unfolding band_defs tile_ids by (simp add: autotile_base_def Let_def band_slot_def band_defs tile_ids)
  next
    case 3 then show ?thesis unfolding band_defs tile_ids by (simp add: autotile_base_def Let_def band_slot_def band_defs tile_ids)
  next
    case 4 then show ?thesis unfolding band_defs tile_ids by (simp add: autotile_base_def Let_def band_slot_def band_defs tile_ids)
  qed
qed

lemma quad_call_ref: "tc_ref (quad_call n x y u v tw th ax ay) = n"
  by (simp add: quad_call_def)

lemma autotile_quadrant_ref:
  "autotile_quadrant s b table dx dy i = Inr cs \<Longrightarrow> c \<in> set cs \<Longrightarrow> tc_ref c = ab_setNumber b"
  by (auto simp: autotile_quadrant_def Let_def quad_call_ref split: option.splits prod.splits if_splits)

lemma autotile_quadrant_nonempty:
  "autotile_quadrant s b table dx dy i = Inr cs \<Longrightarrow> cs \<noteq> []"
  by (auto simp: autotile_quadrant_def Let_def split: option.splits prod.splits if_splits)

lemma collect_member:
  "c \<in> set (fst (collect rs)) \<Longrightarrow> \<exists>cs. Inr cs \<in> set rs \<and> c \<in> set cs"
  by (induction rs) (auto split: sum.splits)

lemma collect_all:
  "snd (collect rs) = None \<Longrightarrow> \<exists>css. rs = map Inr css \<and> fst (collect rs) = concat css"
proof (induction rs)
  case Nil
  then show ?case by simp
next
  case (Cons r rs)
  then obtain cs where r: "r = Inr cs" by (cases r) auto
  with Cons.prems have "snd (collect rs) = None" by simp
  then obtain css where "rs = map Inr css" "fst (collect rs) = concat css" using Cons.IH by blast
  then have "r # rs = map Inr (cs # css) \<and> fst (collect (r # rs)) = concat (cs # css)"
    using r by simp
  then show ?case by (rule exI [of _ "cs # css"])
qed


lemma drawAutotile_refs:
  assumes "isVisibleTile t" and "isAutotile t" and "c \<in> set (fst (drawAutotile_calls s t dx dy))"
  shows "tc_ref c = band_slot t"
proof (cases "nth_opt (ab_table (autotile_base s t)) (getAutotileShape t)")
  case None
  then show ?thesis using assms(3) by (simp add: drawAutotile_calls_def Let_def)
next
  case (Some table)
  then have "c \<in> set (fst (collect (map (autotile_quadrant s (autotile_base s t) table dx dy) [0, 1, 2, 3])))"
    using assms(3) by (simp add: drawAutotile_calls_def Let_def)
  then obtain cs where "Inr cs \<in> set (map (autotile_quadrant s (autotile_base s t) table dx dy) [0, 1, 2, 3])"
    and "c \<in> set cs"
    using collect_member by blast
  then obtain i where "autotile_quadrant s (autotile_base s t) table dx dy i = Inr cs" by auto
  then show ?thesis using \<open>c \<in> set cs\<close> autotile_quadrant_ref autotile_setNumber [OF assms(1,2)] by metis
qed

lemma drawAutotile_count:
  assumes "snd (drawAutotile_calls s t dx dy) = None"
  shows "4 \<le> length (fst (drawAutotile_calls s t dx dy))"
proof (cases "nth_opt (ab_table (autotile_base s t)) (getAutotileShape t)")
  case None
  then show ?thesis using assms by (simp add: drawAutotile_calls_def Let_def)
next
  case (Some table)
  define q where "q = autotile_quadrant s (autotile_base s t) table dx dy"
  have d: "drawAutotile_calls s t dx dy = collect [q 0, q 1, q 2, q 3]"
    using Some by (simp add: drawAutotile_calls_def Let_def q_def)
  with assms obtain css where c: "[q 0, q 1, q 2, q 3] = map Inr css"
    and f: "fst (collect [q 0, q 1, q 2, q 3]) = concat css"
    using collect_all by metis
  from c obtain a b c' d' where css: "css = [a, b, c', d']"
    and q: "q 0 = Inr a" "q 1 = Inr b" "q 2 = Inr c'" "q 3 = Inr d'"
    by (auto simp: map_eq_Cons_conv)
  have "a \<noteq> []" "b \<noteq> []" "c' \<noteq> []" "d' \<noteq> []"
    using q autotile_quadrant_nonempty unfolding q_def by blast+
  then have "1 \<le> length a" "1 \<le> length b" "1 \<le> length c'" "1 \<le> length d'"
    by (simp_all add: Suc_le_eq)
  moreover have "length (fst (drawAutotile_calls s t dx dy)) = length (concat css)"
    by (simp only: d f)
  ultimately show ?thesis by (simp add: css)
qed

text \<open>
  Claim C2, as the code has it. For every visible tile id, every draw call that the decoder
  issues carries the slot number of the id's band under the slot order A1, A2, A3, A4, A5,
  B, C, D, E for the slots 0 to 8: slots 0 to 3 receive the A1 to A4 autotiles, slot 4
  receives A5 and slots 5 to 8 receive B to E (a visible id in no band gets slot 9 or 10).
  A tile that is not an autotile yields exactly one call and no error; an autotile that
  decodes without an error yields at least four.
\<close>

theorem drawTile_slot:
  assumes "isVisibleTile t"
  shows "(\<forall>c \<in> set (fst (drawTile_calls s t dx dy)). tc_ref c = band_slot t) \<and>
         (\<not> isAutotile t \<longrightarrow> snd (drawTile_calls s t dx dy) = None \<and>
            length (fst (drawTile_calls s t dx dy)) = 1) \<and>
         (isAutotile t \<and> snd (drawTile_calls s t dx dy) = None \<longrightarrow>
            4 \<le> length (fst (drawTile_calls s t dx dy)))"
proof (cases "isAutotile t")
  case True
  then show ?thesis
    using assms drawAutotile_refs [OF assms True] drawAutotile_count [of s t dx dy]
    by (simp add: drawTile_calls_def)
next
  case False
  have "isTileA5 t \<Longrightarrow> band_slot t = 4"
    unfolding band_slot_def band_defs tile_ids by simp
  then show ?thesis
    using assms False normal_slot [OF assms False]
    by (auto simp: drawTile_calls_def drawNormalTile_calls_def Let_def)
qed


theorem drawTile_slot_witness:
  "isVisibleTile 1536 \<and> isTileA5 1536 \<and> band_slot 1536 = 4 \<and>
   tc_ref (hd (fst (drawTile_calls example_renderer 1536 0 0))) = 4 \<and>
   length (fst (drawTile_calls example_renderer 1536 0 0)) = 1 \<and>
   isVisibleTile 2816 \<and> isAutotile 2816 \<and> snd (drawTile_calls example_renderer 2816 0 0) = None \<and>
   4 \<le> length (fst (drawTile_calls example_renderer 2816 0 0))"
proof -
  have v: "isVisibleTile 1536" and a: "\<not> isAutotile 1536" and a5: "isTileA5 1536"
    and b: "band_slot 1536 = 4"
    by (simp_all add: band_defs tile_ids band_slot_def)
  have v2: "isVisibleTile 2816" and a2: "isAutotile 2816"
    by (simp_all add: band_defs tile_ids)
  have n: "snd (drawTile_calls example_renderer 2816 0 0) = None" by code_simp
  note one = drawTile_slot [OF v, of example_renderer 0 0]
  then have l: "length (fst (drawTile_calls example_renderer 1536 0 0)) = 1" using a by simp
  then have "hd (fst (drawTile_calls example_renderer 1536 0 0)) \<in>
      set (fst (drawTile_calls example_renderer 1536 0 0))"
    by (cases "fst (drawTile_calls example_renderer 1536 0 0)") simp_all
  then have "tc_ref (hd (fst (drawTile_calls example_renderer 1536 0 0))) = 4"
    using one b by simp
  then show ?thesis
    using drawTile_slot [OF v2, of example_renderer 0 0] v a5 b l v2 a2 n by simp
qed

text \<open>
  The claim as stated fails: under its slot order A5 has slot 0 and A1 has slot 1, but the
  decoder issues the call of the A5 tile 1536 with slot 4 and the four calls of the A1
  autotile 2048 with slot 0.
\<close>

theorem drawTile_slot_counterexample:
  "isVisibleTile 1536 \<and> map tc_ref (fst (drawTile_calls example_renderer 1536 0 0)) = [4] \<and>
   spec_slot 1536 = 0 \<and> isVisibleTile 2048 \<and>
   map tc_ref (fst (drawTile_calls example_renderer 2048 0 0)) = [0, 0, 0, 0] \<and>
   spec_slot 2048 = 1"
  by code_simp

section \<open>Classification of tile ids\<close>

lemma holding_tile_classes: "holding tile_classes t = 1"
  unfolding holding_def tile_classes_def band_defs tile_ids by simp

lemma drawTile_invisible: "invisibleTile t \<Longrightarrow> drawTile_calls s t dx dy = ([], None)"
  by (simp add: drawTile_calls_def invisibleTile_def)

text \<open>
  Claim C1, as the code has it. For every integer tile id exactly one of eleven classes
  holds: invisible (exactly the ids \<open>\<le> 0\<close> or \<open>\<ge> 8192\<close>), B (0, 256), C [256, 512),
  D [512, 768), E [768, 1024), the unbanded ids [1024, 1536), A5 [1536, 2048),
  A1 [2048, 2816), A2 [2816, 4352), A3 [4352, 5888), A4 [5888, 8192). Id 0 is invisible and
  not in band B. The renderer skips an invisible id without a draw call and without an
  error. An unbanded id is visible and is not skipped: the normal-tile decoder issues one
  draw call for it, with slot number 9 (ids below 1280) or 10.
\<close>

theorem tile_classification:
  "holding tile_classes t = 1 \<and>
   (invisibleTile t = (t \<le> 0 \<or> 8192 \<le> t)) \<and>
   (invisibleTile t \<longrightarrow> drawTile_calls s t dx dy = ([], None)) \<and>
   (unbanded t \<longrightarrow> isVisibleTile t \<and> snd (drawTile_calls s t dx dy) = None \<and>
      map tc_ref (fst (drawTile_calls s t dx dy)) = [if t < 1280 then 9 else 10])"
proof -
  have u: "isVisibleTile t \<and> \<not> isAutotile t \<and> \<not> isTileA5 t \<and> band_slot t = (if t < 1280 then 9 else 10)"
    if "unbanded t"
    using that unfolding band_slot_def band_defs tile_ids by simp
  have "unbanded t \<longrightarrow> isVisibleTile t \<and> snd (drawTile_calls s t dx dy) = None \<and>
      map tc_ref (fst (drawTile_calls s t dx dy)) = [if t < 1280 then 9 else 10]"
  proof
    assume a: "unbanded t"
    then have "5 + t div 256 = (if t < 1280 then 9 else 10)"
      using normal_slot [of t] u by simp
    then show "isVisibleTile t \<and> snd (drawTile_calls s t dx dy) = None \<and>
      map tc_ref (fst (drawTile_calls s t dx dy)) = [if t < 1280 then 9 else 10]"
      using u [OF a] by (simp add: drawTile_calls_def drawNormalTile_calls_def Let_def)
  qed
  moreover have "invisibleTile t = (t \<le> 0 \<or> 8192 \<le> t)"
    unfolding band_defs tile_ids by auto
  ultimately show ?thesis
    by (simp add: holding_tile_classes drawTile_invisible)
qed


theorem tile_classification_witness:
  "holding tile_classes 1024 = 1 \<and> unbanded 1024 \<and>
   map tc_ref (fst (drawTile_calls example_renderer 1024 0 0)) = [9] \<and>
   invisibleTile 0 \<and> drawTile_calls example_renderer 0 0 0 = ([], None)"
proof -
  have u: "unbanded 1024" and i: "invisibleTile 0"
    by (simp_all add: band_defs tile_ids)
  show ?thesis
    using tile_classification [of 1024 example_renderer 0 0]
      tile_classification [of 0 example_renderer 0 0] u i
    by simp
qed

text \<open>
  The claim as stated fails. With the documented ranges, id 0 is both invisible and in
  band B. Id 1024 belongs to no band and so counts as invisible for the claim, which says
  that the renderer skips it; but it is a visible tile for the renderer, which issues a
  draw call with slot 9 for it, and on a layer of two buffers that call appends a command
  to buffer 0.
\<close>

theorem tile_classification_counterexample:
  "holding spec_classes 0 = 2 \<and> holding spec_classes 1024 = 1 \<and> spec_invisible 1024 \<and>
   isVisibleTile 1024 \<and>
   map tc_ref (fst (drawTile_calls example_renderer 1024 0 0)) = [9] \<and>
   length (pointsBuf (children
     (snd (perform (drawTile_calls example_renderer 1024 0 0) example_layer)) ! 0)) = 1"
  by code_simp

section \<open>Quadrants of a table tile\<close>











section \<open>The animation clock and the animation offsets\<close>

text \<open>
  An update of a clock of interval 1/2: with a the rounded sum of the accumulated time and
  delta, the division by the interval, the product of the count and the interval and the
  subtraction are exact.
\<close>

lemma clock_update:
  assumes "ci_inteval c = 1 / 2" and "0 \<le> ci_current c" and "ci_current c < 2 ^ 52"
    and "0 \<le> ci_cumulated c" and "0 \<le> delta" and "ci_cumulated c + delta \<le> 2 ^ 51"
    and "a = fl (ci_cumulated c + delta)" and "n = \<lfloor>a * 2\<rfloor>"
  shows "ci_updateDelta delta c =
           (if 1 / 2 \<le> a
            then c\<lparr>ci_current := js_rem (ci_current c + n) (ci_bound c),
                   ci_cumulated := a - of_int n / 2\<rparr>
            else c\<lparr>ci_cumulated := a\<rparr>)"
    and "0 \<le> a" and "0 \<le> n" and "0 \<le> a - of_int n / 2" and "a - of_int n / 2 < 1 / 2"
proof -
  have s0: "0 \<le> ci_cumulated c + delta" using assms(4,5) by simp
  show a0: "0 \<le> a" unfolding assms(7) by (rule fl_nonneg [OF s0])
  have "ci_cumulated c + delta \<le> 2 powi 51" using assms(6) by simp
  then have "a \<le> 2 powi 51" unfolding assms(7) by (intro fl_le_powi [OF s0]) simp_all
  then have a1: "a \<le> 2 ^ 51" by simp
  have ra: "representable a" unfolding assms(7) by (rule representable_fl)
  show n0: "0 \<le> n" using a0 by (simp add: assms(8))
  have lo: "of_int n \<le> a * 2" and hi: "a * 2 < of_int n + 1"
    unfolding assms(8) by linarith+
  show "0 \<le> a - of_int n / 2" "a - of_int n / 2 < 1 / 2"
    using lo hi by (simp_all add: field_simps)
  have "of_int n \<le> (2 ^ 52 :: real)" using lo a1 by simp
  then have "of_int n \<le> (of_int (2 ^ 52) :: real)" by simp
  then have n1: "n \<le> 2 ^ 52" by (simp only: of_int_le_iff)
  have q: "fl (a / (1 / 2)) = a * 2"
    using fl_representable [OF representable_double [OF ra]] by simp
  have p: "fl (of_int n * (1 / 2)) = of_int n / 2"
    using fl_representable [OF representable_half [of n]] n0 n1 by simp
  have d: "fl (a - of_int n / 2) = a - of_int n / 2"
    using fl_representable [OF representable_leftover [OF ra a0]] by (simp add: assms(8))
  have z: "fl (of_int (ci_current c + n)) = of_int (ci_current c + n)"
    using assms(2,3) n0 n1 by (intro fl_representable representable_of_int) simp
  show "ci_updateDelta delta c =
           (if 1 / 2 \<le> a
            then c\<lparr>ci_current := js_rem (ci_current c + n) (ci_bound c),
                   ci_cumulated := a - of_int n / 2\<rparr>
            else c\<lparr>ci_cumulated := a\<rparr>)"
    unfolding ci_updateDelta_def assms(7) [symmetric] Let_def assms(1) q assms(8) [symmetric]
      p d z floor_of_int
    by simp
qed

lemma fl_units:
  assumes "2 ^ (52 + j) \<le> N" and "N < 2 ^ (53 + j)"
  shows "fl (of_int N / 2 ^ 56) = of_int (rne (of_int N / 2 ^ j)) * 2 ^ j / 2 ^ 56"
proof -
  define x :: real where "x = of_int N / 2 ^ 56"
  define k where "k = int j - 4"
  have N0: "0 \<le> N" using assms(1) by (smt (verit) zero_le_power)
  have p: "(2::real) powi k = 2 ^ (52 + j) / 2 ^ 56" "(2::real) powi (k + 1) = 2 ^ (53 + j) / 2 ^ 56"
    by (simp_all add: k_def power_int_diff power_int_add power_add)
  have "(of_int (2 ^ (52 + j)) :: real) \<le> of_int N" using assms(1) by (simp only: of_int_le_iff)
  then have "(2::real) ^ (52 + j) \<le> of_int N" by simp
  then have lo: "2 powi k \<le> \<bar>x\<bar>"
    unfolding p x_def using N0 by (simp add: divide_right_mono)
  have "(of_int N :: real) < of_int (2 ^ (53 + j))" using assms(2) by (simp only: of_int_less_iff)
  then have "of_int N < (2::real) ^ (53 + j)" by simp
  then have hi: "\<bar>x\<bar> < 2 powi (k + 1)"
    unfolding p x_def using N0 by (simp add: divide_strict_right_mono)
  have u: "max k (- 1022) - 52 = int j - 56" by (simp add: k_def)
  have q: "(2::real) powi (int j - 56) = 2 ^ j / 2 ^ 56" by (simp add: power_int_diff)
  have "fl x = of_int (rne (x / (2 ^ j / 2 ^ 56))) * (2 ^ j / 2 ^ 56)"
    using fl_in_binade [OF lo hi] unfolding u q .
  moreover have "x / (2 ^ j / 2 ^ 56) = of_int N / 2 ^ j" by (simp add: x_def)
  ultimately show ?thesis by (simp add: x_def)
qed

text \<open>
  Ten updates by the double that the literal 0.05 denotes: two of the ten sums are exact,
  two are ties that go to the even significand and six are rounded down, so that the
  accumulated time ends one spacing below 1/2 and the counter has not moved.
\<close>

lemma clock_waits:
  assumes "ci_inteval c = 1 / 2" and "0 \<le> ci_current c" and "ci_current c < 2 ^ 52"
    and "0 \<le> ci_cumulated c" and "0 \<le> delta" and "ci_cumulated c + delta \<le> 2 ^ 51"
    and "fl (ci_cumulated c + delta) = a" and "a < 1 / 2"
  shows "ci_updateDelta delta c = c\<lparr>ci_cumulated := a\<rparr>"
  using clock_update(1) [OF assms(1-6) refl refl] assms(7,8) by simp

lemma clock_waits_from:
  assumes "ci_inteval c = 1 / 2" and "ci_current c = 0" and "fl (A + delta) = B"
    and "0 \<le> A" and "0 \<le> delta" and "A + delta \<le> 2 ^ 51" and "B < 1 / 2"
  shows "ci_updateDelta delta (c\<lparr>ci_cumulated := A\<rparr>) = c\<lparr>ci_cumulated := B\<rparr>"
  using clock_waits [of "c\<lparr>ci_cumulated := A\<rparr>" delta B] assms by simp

lemma funpow_ten: "(f ^^ 10) x = f (f (f (f (f (f (f (f (f (f x)))))))))"
  by (simp add: numeral_eq_Suc)

lemma fl_twentieth: "fl (1 / 20) = 3602879701896397 / 2 ^ 56"
  using fl_in_binade [of "- 5" "1 / 20"] by (simp add: power_int_minus rne_def Let_def)

lemma ten_twentieths:
  fixes c :: CounterInterpolator
  assumes "ci_inteval c = 1 / 2" and "ci_current c = 0" and "ci_cumulated c = 0"
  shows "(ci_updateDelta (3602879701896397 / 2 ^ 56) ^^ 10) c =
           c\<lparr>ci_cumulated := 9007199254740991 / 2 ^ 54\<rparr>"
proof -
  define d :: real where "d = 3602879701896397 / 2 ^ 56"
  have "representable (of_int 3602879701896397 * 2 powi (- 56))"
    by (intro representableI [OF refl]) simp_all
  then have f1: "fl (0 / 2 ^ 56 + d) = 3602879701896397 / 2 ^ 56"
    using fl_representable [of "3602879701896397 / 2 ^ 56"] by (simp add: d_def power_int_minus)
  have "representable (of_int 7205759403792794 * 2 powi (- 56))"
    by (intro representableI [OF refl]) simp_all
  then have f2: "fl (3602879701896397 / 2 ^ 56 + d) = 7205759403792794 / 2 ^ 56"
    using fl_representable [of "7205759403792794 / 2 ^ 56"] by (simp add: d_def power_int_minus)
  have f3: "fl (7205759403792794 / 2 ^ 56 + d) = 10808639105689192 / 2 ^ 56"
    using fl_units [of 1 10808639105689191] by (simp add: d_def rne_def Let_def)
  have f4: "fl (10808639105689192 / 2 ^ 56 + d) = 14411518807585588 / 2 ^ 56"
    using fl_units [of 1 14411518807585589] by (simp add: d_def rne_def Let_def)
  have f5: "fl (14411518807585588 / 2 ^ 56 + d) = 18014398509481984 / 2 ^ 56"
    using fl_units [of 2 18014398509481985] by (simp add: d_def rne_def Let_def)
  have f6: "fl (18014398509481984 / 2 ^ 56 + d) = 21617278211378380 / 2 ^ 56"
    using fl_units [of 2 21617278211378381] by (simp add: d_def rne_def Let_def)
  have f7: "fl (21617278211378380 / 2 ^ 56 + d) = 25220157913274776 / 2 ^ 56"
    using fl_units [of 2 25220157913274777] by (simp add: d_def rne_def Let_def)
  have f8: "fl (25220157913274776 / 2 ^ 56 + d) = 28823037615171172 / 2 ^ 56"
    using fl_units [of 2 28823037615171173] by (simp add: d_def rne_def Let_def)
  have f9: "fl (28823037615171172 / 2 ^ 56 + d) = 32425917317067568 / 2 ^ 56"
    using fl_units [of 2 32425917317067569] by (simp add: d_def rne_def Let_def)
  have f10: "fl (32425917317067568 / 2 ^ 56 + d) = 36028797018963964 / 2 ^ 56"
    using fl_units [of 2 36028797018963965] by (simp add: d_def rne_def Let_def)
  have s1: "ci_updateDelta d (c\<lparr>ci_cumulated := 0 / 2 ^ 56\<rparr>) =
      c\<lparr>ci_cumulated := 3602879701896397 / 2 ^ 56\<rparr>"
    by (rule clock_waits_from [OF assms(1,2) f1]) (simp_all add: d_def)
  have s2: "ci_updateDelta d (c\<lparr>ci_cumulated := 3602879701896397 / 2 ^ 56\<rparr>) =
      c\<lparr>ci_cumulated := 7205759403792794 / 2 ^ 56\<rparr>"
    by (rule clock_waits_from [OF assms(1,2) f2]) (simp_all add: d_def)
  have s3: "ci_updateDelta d (c\<lparr>ci_cumulated := 7205759403792794 / 2 ^ 56\<rparr>) =
      c\<lparr>ci_cumulated := 10808639105689192 / 2 ^ 56\<rparr>"
    by (rule clock_waits_from [OF assms(1,2) f3]) (simp_all add: d_def)
  have s4: "ci_updateDelta d (c\<lparr>ci_cumulated := 10808639105689192 / 2 ^ 56\<rparr>) =
      c\<lparr>ci_cumulated := 14411518807585588 / 2 ^ 56\<rparr>"
    by (rule clock_waits_from [OF assms(1,2) f4]) (simp_all add: d_def)
  have s5: "ci_updateDelta d (c\<lparr>ci_cumulated := 14411518807585588 / 2 ^ 56\<rparr>) =
      c\<lparr>ci_cumulated := 18014398509481984 / 2 ^ 56\<rparr>"
    by (rule clock_waits_from [OF assms(1,2) f5]) (simp_all add: d_def)
  have s6: "ci_updateDelta d (c\<lparr>ci_cumulated := 18014398509481984 / 2 ^ 56\<rparr>) =
      c\<lparr>ci_cumulated := 21617278211378380 / 2 ^ 56\<rparr>"
    by (rule clock_waits_from [OF assms(1,2) f6]) (simp_all add: d_def)
  have s7: "ci_updateDelta d (c\<lparr>ci_cumulated := 21617278211378380 / 2 ^ 56\<rparr>) =
      c\<lparr>ci_cumulated := 25220157913274776 / 2 ^ 56\<rparr>"
    by (rule clock_waits_from [OF assms(1,2) f7]) (simp_all add: d_def)
  have s8: "ci_updateDelta d (c\<lparr>ci_cumulated := 25220157913274776 / 2 ^ 56\<rparr>) =
      c\<lparr>ci_cumulated := 28823037615171172 / 2 ^ 56\<rparr>"
    by (rule clock_waits_from [OF assms(1,2) f8]) (simp_all add: d_def)
  have s9: "ci_updateDelta d (c\<lparr>ci_cumulated := 28823037615171172 / 2 ^ 56\<rparr>) =
      c\<lparr>ci_cumulated := 32425917317067568 / 2 ^ 56\<rparr>"
    by (rule clock_waits_from [OF assms(1,2) f9]) (simp_all add: d_def)
  have s10: "ci_updateDelta d (c\<lparr>ci_cumulated := 32425917317067568 / 2 ^ 56\<rparr>) =
      c\<lparr>ci_cumulated := 36028797018963964 / 2 ^ 56\<rparr>"
    by (rule clock_waits_from [OF assms(1,2) f10]) (simp_all add: d_def)
  have z: "c = c\<lparr>ci_cumulated := 0 / 2 ^ 56\<rparr>" using assms(3) by simp
  have "(ci_updateDelta d ^^ 10) c = (ci_updateDelta d ^^ 10) (c\<lparr>ci_cumulated := 0 / 2 ^ 56\<rparr>)"
    using z by simp
  also have "\<dots> = c\<lparr>ci_cumulated := 36028797018963964 / 2 ^ 56\<rparr>"
    by (simp only: funpow_ten s1 s2 s3 s4 s5 s6 s7 s8 s9 s10)
  finally show ?thesis by (simp add: d_def)
qed

text \<open>
  Claim C7, as the code has it. The renderer's animation clock is a cyclic counter bounded
  at 12 whose step interval is 30 / 60 = 1/2 of the unit of elapsed time (the callers pass
  seconds: two steps per second, not thirty). An update by \<open>delta \<ge> 0\<close> first rounds the
  sum of the accumulated time and delta to a double a, which is within half a spacing of
  the doubles of the sum: this rounding is the only place where elapsed time can be lost or
  gained. The update then advances the counter by the number n of whole intervals in a,
  modulo 12, and retains the leftover exactly: the new accumulated time is a minus n
  intervals, at least 0 and less than 1/2. (The sum is taken below \<open>2 ^ 51\<close>, where the
  counts are exact doubles.)
\<close>

theorem clock_step:
  assumes "ci_bound c = 12" and "ci_inteval c = 30 / DefaultFps"
    and "0 \<le> ci_current c" and "ci_current c < 12" and "0 \<le> ci_cumulated c" and "0 \<le> delta"
    and "ci_cumulated c + delta \<le> 2 ^ 51"
  shows "let c' = ci_updateDelta delta c;
             a = fl (ci_cumulated c + delta);
             n = \<lfloor>a * 2\<rfloor>
         in \<bar>a - (ci_cumulated c + delta)\<bar> \<le> ulp (ci_cumulated c + delta) / 2 \<and>
            ci_value c' = (ci_current c + n) mod 12 \<and>
            0 \<le> ci_value c' \<and> ci_value c' < 12 \<and>
            ci_cumulated c' = a - of_int n / 2 \<and>
            0 \<le> ci_cumulated c' \<and> ci_cumulated c' < 1 / 2 \<and>
            ci_bound c' = 12 \<and> ci_inteval c' = 1 / 2"
proof -
  define a where "a = fl (ci_cumulated c + delta)"
  define n where "n = \<lfloor>a * 2\<rfloor>"
  define c' where "c' = ci_updateDelta delta c"
  have iv: "ci_inteval c = 1 / 2" using assms(2) by (simp add: DefaultFps_def)
  have cur: "ci_current c < 2 ^ 52" using assms(4) by simp
  note u = clock_update [OF iv assms(3) cur assms(5,6,7) a_def n_def]
  have e: "\<bar>a - (ci_cumulated c + delta)\<bar> \<le> ulp (ci_cumulated c + delta) / 2"
    unfolding a_def by (rule fl_error)
  have r: "ci_value c' = (ci_current c + n) mod 12 \<and> ci_cumulated c' = a - of_int n / 2 \<and>
      ci_bound c' = 12 \<and> ci_inteval c' = 1 / 2"
  proof (cases "1 / 2 \<le> a")
    case True
    have "js_rem (ci_current c + n) 12 = (ci_current c + n) mod 12"
      using assms(3) u(3) by (simp add: js_rem_nonneg)
    then show ?thesis
      using True assms(1) iv by (simp add: c'_def u(1) ci_value_def)
  next
    case False
    then have "a * 2 < 1" by simp
    then have "n = 0" using u(2) unfolding n_def by (simp add: floor_eq_iff)
    then show ?thesis
      using False assms(1,3,4) iv by (simp add: c'_def u(1) ci_value_def)
  qed
  then have "0 \<le> ci_value c'" "ci_value c' < 12" by simp_all
  then show ?thesis
    unfolding Let_def a_def [symmetric] n_def [symmetric] c'_def [symmetric]
    using e r u(4,5) by simp
qed

theorem clock_step_witness:
  "ci_bound (animationCount (ShaderTilemap_fields 0 0 False)) = 12 \<and>
   ci_inteval (animationCount (ShaderTilemap_fields 0 0 False)) = 30 / DefaultFps \<and>
   ci_current (animationCount (ShaderTilemap_fields 0 0 False)) = 0 \<and>
   ci_cumulated (animationCount (ShaderTilemap_fields 0 0 False)) = 0 \<and>
   (5 / 4 :: real) \<le> 2 ^ 51 \<and> fl (5 / 4) = 5 / 4 \<and>
   ci_value (ci_updateDelta (5 / 4) (animationCount (ShaderTilemap_fields 0 0 False))) = 2 \<and>
   ci_cumulated (ci_updateDelta (5 / 4) (animationCount (ShaderTilemap_fields 0 0 False))) = 1 / 4"
proof -
  define c where "c = animationCount (ShaderTilemap_fields 0 0 False)"
  have h: "ci_bound c = 12" "ci_inteval c = 30 / DefaultFps" "ci_current c = 0"
    "ci_cumulated c = 0"
    by (simp_all add: c_def ShaderTilemap_fields_def CounterInterpolator_new_def)
  have "representable (of_int 5 * 2 powi (- 2))" by (intro representableI [OF refl]) simp_all
  then have f: "fl (5 / 4) = 5 / 4" using fl_representable [of "5 / 4"] by (simp add: power_int_minus)
  have "\<lfloor>(5 / 4 :: real) * 2\<rfloor> = 2" by simp
  then show ?thesis
    using clock_step [of c "5 / 4"] h f by (simp add: Let_def c_def [symmetric])
qed

text \<open>
  The claim as stated fails: after 1/30 second the renderer's clock has not advanced, and
  after one second it has advanced by 2 steps, where one step per 1/30 second gives 1 and
  30 steps (6 modulo 12). Elapsed time is lost as well: ten updates by the double nearest
  to 1/20 second, which together are no less than the interval 1/2, leave the counter at 0
  with an accumulated time below 1/2.
\<close>

theorem clock_step_counterexample:
  "ci_value (ci_updateDelta (1 / 30) (animationCount (ShaderTilemap_fields 0 0 False))) = 0 \<and>
   spec_clock_value (1 / 30) = 1 \<and>
   ci_value (ci_updateDelta 1 (animationCount (ShaderTilemap_fields 0 0 False))) = 2 \<and>
   spec_clock_value 1 = 6 \<and>
   fl (1 / 20) = 3602879701896397 / 2 ^ 56 \<and>
   1 / 2 \<le> 10 * fl (1 / 20) \<and>
   ci_value ((ci_updateDelta (fl (1 / 20)) ^^ 10)
     (animationCount (ShaderTilemap_fields 0 0 False))) = 0 \<and>
   ci_cumulated ((ci_updateDelta (fl (1 / 20)) ^^ 10)
     (animationCount (ShaderTilemap_fields 0 0 False))) = 9007199254740991 / 2 ^ 54"
proof -
  define c where "c = animationCount (ShaderTilemap_fields 0 0 False)"
  have h: "ci_bound c = 12" "ci_inteval c = 1 / 2" "ci_current c = 0" "ci_cumulated c = 0"
    by (simp_all add: c_def ShaderTilemap_fields_def CounterInterpolator_new_def DefaultFps_def)
  have "fl (1 / 30) \<le> 2 powi (- 4)"
    by (rule fl_le_powi) (simp_all add: power_int_minus)
  then have s: "fl (1 / 30) < 1 / 2" by (simp add: power_int_minus)
  have "ci_updateDelta (1 / 30) c = c\<lparr>ci_cumulated := fl (1 / 30)\<rparr>"
    using clock_update(1) [of c "1 / 30", OF _ _ _ _ _ _ refl refl] h s by simp
  then have a: "ci_value (ci_updateDelta (1 / 30) c) = 0" by (simp add: ci_value_def h)
  have "representable (of_int 1)" by (rule representable_of_int) simp
  then have f: "fl 1 = 1" using fl_representable [of 1] by simp
  have "ci_updateDelta 1 c = c\<lparr>ci_current := js_rem 2 12, ci_cumulated := 0\<rparr>"
    using clock_update(1) [of c 1, OF _ _ _ _ _ _ refl refl] h f by simp
  then have b: "ci_value (ci_updateDelta 1 c) = 2" by (simp add: ci_value_def js_rem_def)
  have t: "(ci_updateDelta (fl (1 / 20)) ^^ 10) c = c\<lparr>ci_cumulated := 9007199254740991 / 2 ^ 54\<rparr>"
    unfolding fl_twentieth by (rule ten_twentieths [OF h(2,3,4)])
  have e: "ci_value ((ci_updateDelta (fl (1 / 20)) ^^ 10) c) = 0"
    "ci_cumulated ((ci_updateDelta (fl (1 / 20)) ^^ 10) c) = 9007199254740991 / 2 ^ 54"
    unfolding t by (simp_all add: ci_value_def h)
  have g: "1 / 2 \<le> 10 * fl (1 / 20)" unfolding fl_twentieth by simp
  have p: "spec_clock_value (1 / 30) = 1" "spec_clock_value 1 = 6"
    by (simp_all add: spec_clock_value_def)
  show ?thesis
    unfolding c_def [symmetric] by (intro conjI a b p fl_twentieth g e)
qed

lemma example_clock:
  assumes "0 \<le> d" and "d \<le> 2 ^ 51" and "fl d = d" and "1 / 2 \<le> d"
  shows "animationFrame (updateDelta d example_renderer) = \<lfloor>d * 2\<rfloor> mod 12"
proof -
  define c where "c = animationCount example_renderer"
  have h: "ci_bound c = 12" "ci_inteval c = 1 / 2" "ci_current c = 0" "ci_cumulated c = 0"
    by (simp_all add: c_def example_renderer_def setData_def ShaderTilemap_fields_def
        CounterInterpolator_new_def DefaultFps_def)
  have n: "0 \<le> \<lfloor>d * 2\<rfloor>" using assms(1) by simp
  have "ci_updateDelta d c =
      c\<lparr>ci_current := js_rem \<lfloor>d * 2\<rfloor> 12, ci_cumulated := d - of_int \<lfloor>d * 2\<rfloor> / 2\<rparr>"
    using clock_update(1) [of c d, OF _ _ _ _ _ _ refl refl] h assms by simp
  then have "ci_value (ci_updateDelta d c) = \<lfloor>d * 2\<rfloor> mod 12"
    using n by (simp add: ci_value_def js_rem_nonneg)
  then show ?thesis
    by (simp add: updateDelta_def Let_def updateTileAnim_def c_def)
qed

lemma fl_halves: "\<bar>z\<bar> < 2 ^ 53 \<Longrightarrow> fl (of_int z / 2) = of_int z / 2"
  by (rule fl_representable [OF representable_half])

text \<open>
  Claim C6, as the code has it. After an update of the renderer, with frame the count of
  the animation clock, the animation offset given to every lower and upper layer is
  \<open>(r * tileWidth, (frame mod 3) * tileHeight)\<close>, where r is \<open>frame mod 4\<close> with 3
  remapped to 1: the horizontal offset runs through the cycle 0, 1, 2, 1 and the vertical
  offset through the cycle 0, 1, 2.
\<close>

theorem anim_offsets:
  assumes "0 \<le> ci_current (animationCount s)" and "0 < ci_bound (animationCount s)"
    and "0 < ci_inteval (animationCount s)"
  shows "let s' = updateDelta delta s; frame = animationFrame s'
         in frame = ci_value (animationCount s') \<and> 0 \<le> frame \<and>
            list_all (\<lambda>l. layerTileAnim l =
                 (of_int (if frame mod 4 = 3 then 1 else frame mod 4) * tileWidth s,
                  of_int (frame mod 3) * tileHeight s))
              (lowerLayer s' @ upperLayer s')"
proof -
  define c where "c = animationCount s"
  define c' where "c' = ci_updateDelta delta c"
  define a where "a = fl (ci_cumulated c + delta)"
  define cnt where "cnt = \<lfloor>fl (a / ci_inteval c)\<rfloor>"
  have f0: "0 \<le> ci_current c'"
  proof (cases "a \<ge> ci_inteval c")
    case True
    then have "2 powi 0 \<le> a / ci_inteval c"
      using assms(3) by (simp add: c_def pos_le_divide_eq)
    then have "2 powi 0 \<le> fl (a / ci_inteval c)" by (rule fl_ge_powi) simp
    then have "0 \<le> cnt" unfolding cnt_def by simp
    then have "0 \<le> (of_int (ci_current c + cnt) :: real)"
      using assms(1) by (simp add: c_def)
    then have "0 \<le> fl (of_int (ci_current c + cnt))" by (rule fl_nonneg)
    then have "0 \<le> \<lfloor>fl (of_int (ci_current c + cnt))\<rfloor>" by simp
    then have "0 \<le> js_rem \<lfloor>fl (of_int (ci_current c + cnt))\<rfloor> (ci_bound c)"
      using assms(2) by (simp add: js_rem_nonneg c_def)
    then show ?thesis
      using True by (simp add: c'_def ci_updateDelta_def Let_def a_def cnt_def)
  next
    case False
    then show ?thesis
      using assms(1) by (simp add: c'_def ci_updateDelta_def Let_def c_def a_def)
  qed
  then have m: "js_rem (ci_current c') 4 = ci_current c' mod 4" "js_rem (ci_current c') 3 = ci_current c' mod 3"
    by (simp_all add: js_rem_nonneg)
  show ?thesis
    using f0 m
    by (auto simp add: updateDelta_def Let_def updateTileAnim_def ci_value_def list_all_iff
        c_def [symmetric] c'_def [symmetric])
qed

theorem anim_offsets_witness:
  "ci_current (animationCount example_renderer) = 0 \<and>
   ci_bound (animationCount example_renderer) = 12 \<and>
   ci_inteval (animationCount example_renderer) = 1 / 2 \<and>
   animationFrame (updateDelta (3 / 2) example_renderer) = 3 \<and>
   list_all (\<lambda>l. layerTileAnim l = (48, 0))
     (lowerLayer (updateDelta (3 / 2) example_renderer) @
      upperLayer (updateDelta (3 / 2) example_renderer))"
proof -
  have h: "ci_current (animationCount example_renderer) = 0"
    "ci_bound (animationCount example_renderer) = 12"
    "ci_inteval (animationCount example_renderer) = 1 / 2"
    "tileWidth example_renderer = 48" "tileHeight example_renderer = 48"
    by (simp_all add: example_renderer_def setData_def ShaderTilemap_fields_def
        CounterInterpolator_new_def DefaultFps_def)
  have "fl (3 / 2) = 3 / 2" using fl_halves [of 3] by simp
  then have f: "animationFrame (updateDelta (3 / 2) example_renderer) = 3"
    using example_clock [of "3 / 2"] by simp
  show ?thesis
    using anim_offsets [of example_renderer "3 / 2"] h f by (simp add: Let_def)
qed

text \<open>
  The claim as stated fails: at frame 1, with tiles of 48 by 48, the offsets are (48, 48),
  while the column \<open>floor(frame / 4) mod 3\<close> and the row \<open>frame mod 4\<close> of the claim give
  (0, 48), or (48, 0) with the axes exchanged.
\<close>

theorem anim_offsets_counterexample:
  "animationFrame (updateDelta (1 / 2) example_renderer) = 1 \<and>
   layerTileAnim (lowerLayer (updateDelta (1 / 2) example_renderer) ! 0) = (48, 48) \<and>
   (of_int (spec_anim_col 1) * tileWidth example_renderer,
    of_int (spec_anim_row 1) * tileHeight example_renderer) = (0, 48) \<and>
   (of_int (spec_anim_row 1) * tileWidth example_renderer,
    of_int (spec_anim_col 1) * tileHeight example_renderer) = (48, 0)"
proof -
  have h: "tileWidth example_renderer = 48" "tileHeight example_renderer = 48"
    "lowerLayer example_renderer = replicate 4 example_layer"
    by (simp_all add: example_renderer_def setData_def ShaderTilemap_fields_def)
  have "fl (1 / 2) = 1 / 2" using fl_halves [of 1] by simp
  then have f: "animationFrame (updateDelta (1 / 2) example_renderer) = 1"
    using example_clock [of "1 / 2"] by simp
  have "lowerLayer (updateDelta (1 / 2) example_renderer) =
      map (\<lambda>l. l\<lparr>layerTileAnim := (48, 48)\<rparr>) (replicate 4 example_layer)"
    using f h
    by (simp add: updateDelta_def Let_def updateTileAnim_def js_rem_def)
  then have l: "layerTileAnim (lowerLayer (updateDelta (1 / 2) example_renderer) ! 0) = (48, 48)"
    by simp
  show ?thesis
    using f l h by (simp add: spec_anim_col_def spec_anim_row_def)
qed

section \<open>The geometry build\<close>

lemma u32_set_f32 [simp]: "u32 (set_f32 a j x h) = u32 h"
  by (simp add: set_f32_def)

lemma next_set_f32 [simp]: "next_buf (set_f32 a j x h) = next_buf h"
  by (simp add: set_f32_def)

lemma next_set_u32 [simp]: "next_buf (set_u32 a j x h) = next_buf h"
  by (simp add: set_u32_def)

lemma len_f32_set_f32 [simp]: "length (f32 (set_f32 a j x h) b) = length (f32 h b)"
  by (simp add: set_f32_def)

lemma len_f32_set_u32 [simp]: "f32 (set_u32 a j x h) = f32 h"
  by (simp add: set_u32_def)

lemma len_u32_set_u32 [simp]: "length (u32 (set_u32 a j x h) b) = length (u32 h b)"
  by (simp add: set_u32_def)

lemma view_ok_u32_set_u32 [simp]: "view_ok_u32 (set_u32 a j x h) b = view_ok_u32 h b"
  by (simp add: view_ok_u32_def)

lemma view_ok_u32_set_f32 [simp]: "view_ok_u32 (set_f32 a j x h) b = view_ok_u32 h b"
  by (simp add: view_ok_u32_def)

lemma view_ok_f32_set_u32 [simp]: "view_ok_f32 (set_u32 a j x h) b = view_ok_f32 h b"
  by (simp add: view_ok_f32_def)

lemma view_ok_f32_set_f32 [simp]: "view_ok_f32 (set_f32 a j x h) b = view_ok_f32 h b"
  by (simp add: view_ok_f32_def)


lemma below_set_f32 [simp]: "below N S a (set_f32 b j x h) = below N S a h"
  by (simp add: below_def)

lemma below_set_u32:
  assumes "below N S a h" and "x < N" and "view_ok_u32 h a"
  shows "below N (insert j S) a (set_u32 a j x h)"
proof -
  have "unat (of_nat x :: 32 word) \<le> x" by (simp add: unat_of_nat)
  then have "unat (of_nat x :: 32 word) < N" using assms(2) by simp
  then show ?thesis
    using assms(1,3) by (auto simp: below_def set_u32_def view_ok_u32_def nth_list_update)
qed

lemma below_mono: "below N S a h \<Longrightarrow> T \<subseteq> S \<Longrightarrow> below N T a h"
  by (auto simp: below_def)

lemma write_quad_ok:
  "view_ok_u32 (write_quad tm g i p h) a = view_ok_u32 h a"
  "view_ok_f32 (write_quad tm g i p h) a = view_ok_f32 h a"
  "next_buf (write_quad tm g i p h) = next_buf h"
  by (simp_all add: write_quad_def Let_def)

lemma write_quad_below:
  assumes "below N {k. k < i * 6} (indices g) h" and "i * 4 + 3 < N" and "view_ok_u32 h (indices g)"
  shows "below N {k. k < Suc i * 6} (indices g) (write_quad tm g i p h)"
proof -
  have "below N (insert (i * 6 + 5) (insert (i * 6 + 4) (insert (i * 6 + 3) (insert (i * 6 + 2)
      (insert (i * 6 + 1) (insert (i * 6 + 0) {k. k < i * 6})))))) (indices g) (write_quad tm g i p h)"
    unfolding write_quad_def Let_def
    using assms by (intro below_set_u32) simp_all
  then show ?thesis by (rule below_mono) auto
qed

lemma write_quads_ok:
  "view_ok_u32 (write_quads tm g i ps h) a = view_ok_u32 h a"
  "view_ok_f32 (write_quads tm g i ps h) a = view_ok_f32 h a"
  "next_buf (write_quads tm g i ps h) = next_buf h"
  by (induction ps arbitrary: i h) (simp_all add: write_quad_ok)

lemma write_quads_below:
  assumes "below N {k. k < i * 6} (indices g) h" and "(i + length ps) * 4 \<le> N"
    and "view_ok_u32 h (indices g)"
  shows "below N {k. k < (i + length ps) * 6} (indices g) (write_quads tm g i ps h)"
  using assms
proof (induction ps arbitrary: i h)
  case Nil
  then show ?case by simp
next
  case (Cons p ps)
  have "below N {k. k < Suc i * 6} (indices g) (write_quad tm g i p h)"
    using Cons.prems by (intro write_quad_below) simp_all
  moreover have "(Suc i + length ps) * 4 \<le> N" using Cons.prems(2) by simp
  moreover have "view_ok_u32 (write_quad tm g i p h) (indices g)"
    using Cons.prems(3) by (simp add: write_quad_ok)
  ultimately have "below N {k. k < (Suc i + length ps) * 6} (indices g)
      (write_quads tm g (Suc i) ps (write_quad tm g i p h))"
    by (rule Cons.IH)
  then show ?case by simp
qed

lemma contents_below:
  assumes "below N {k. k < v_len a} a h" and "view_ok_u32 h a"
  shows "\<forall>w \<in> set (u32_contents h a). unat w < N"
proof
  fix w assume "w \<in> set (u32_contents h a)"
  then obtain k where k: "k < length (u32_contents h a)" "w = u32_contents h a ! k"
    by (auto simp: in_set_conv_nth)
  then have "k < v_len a" by (simp add: u32_contents_def)
  moreover have "w = u32 h (v_buf a) ! (v_off a + k)"
    using k assms(2) by (simp add: u32_contents_def view_ok_u32_def)
  ultimately show "unat w < N" using assms(1) by (simp add: below_def)
qed

lemma choose_geometry_shape:
  assumes "geometry = None \<or> (\<exists>g. geometry = Some g \<and> built_shape h g)"
  shows "v_len (positions (fst (choose_geometry n geometry h))) = n * 8 \<and>
         v_len (uvs (fst (choose_geometry n geometry h))) = n * 8 \<and>
         v_len (indices (fst (choose_geometry n geometry h))) = n * 6 \<and>
         built_shape (snd (choose_geometry n geometry h)) (fst (choose_geometry n geometry h))"
proof -
  have fresh: "v_len (positions (fst (new_MeshGeometry n h))) = n * 8 \<and>
         v_len (uvs (fst (new_MeshGeometry n h))) = n * 8 \<and>
         v_len (indices (fst (new_MeshGeometry n h))) = n * 6 \<and>
         built_shape (snd (new_MeshGeometry n h)) (fst (new_MeshGeometry n h))"
    by (simp add: new_MeshGeometry_def new_Float32Array_def new_Uint32Array_def built_shape_def
        view_ok_f32_def view_ok_u32_def)
  show ?thesis
  proof (cases geometry)
    case None
    then show ?thesis using fresh by (simp add: choose_geometry_def)
  next
    case (Some g)
    then have b: "built_shape h g" using assms by simp
    show ?thesis
    proof (cases "v_len (positions g) \<le> n * 8")
      case True
      then show ?thesis using fresh Some by (simp add: choose_geometry_def)
    next
      case False
      then show ?thesis
        using b Some
        by (auto simp: choose_geometry_def subarray_def built_shape_def view_ok_f32_def
            view_ok_u32_def min_def)
    qed
  qed
qed

text \<open>
  Claim C4. For every batch buffer of n accumulated draw commands (n at least 1, and also
  n = 0), the geometry build returns a mesh whose position array has length 8n, whose
  texture-coordinate array has length 8n and whose index array has length 6n, and every
  entry of the index array is less than 4n. The build is given either no geometry or a
  geometry of the shape that a build returns (as the render pipe does, which passes the
  geometry of an earlier build); the mesh returned has that shape again.
\<close>

theorem geometry_build:
  assumes "geometry = None \<or> (\<exists>g. geometry = Some g \<and> built_shape h g)"
  shows "let g' = fst (computeGeometriesBatched tm geometry h);
             h' = snd (computeGeometriesBatched tm geometry h);
             n = length (pointsBuf tm)
         in v_len (positions g') = 8 * n \<and> v_len (uvs g') = 8 * n \<and> v_len (indices g') = 6 * n \<and>
            length (f32_contents h' (positions g')) = 8 * n \<and>
            length (f32_contents h' (uvs g')) = 8 * n \<and>
            length (u32_contents h' (indices g')) = 6 * n \<and>
            (\<forall>w \<in> set (u32_contents h' (indices g')). unat w < 4 * n) \<and>
            built_shape h' g'"
proof -
  define n where "n = length (pointsBuf tm)"
  define g where "g = fst (choose_geometry n geometry h)"
  define h1 where "h1 = snd (choose_geometry n geometry h)"
  define h2 where "h2 = write_quads tm g 0 (pointsBuf tm) h1"
  have c: "computeGeometriesBatched tm geometry h = (g, h2)"
    by (simp add: computeGeometriesBatched_def g_def h1_def h2_def n_def split_beta)
  have s: "v_len (positions g) = n * 8" "v_len (uvs g) = n * 8" "v_len (indices g) = n * 6"
    "built_shape h1 g"
    using choose_geometry_shape [OF assms, of n] by (simp_all add: g_def h1_def)
  have ok: "view_ok_u32 h1 (indices g)" "view_ok_f32 h1 (positions g)" "view_ok_f32 h1 (uvs g)"
    using s(4) by (simp_all add: built_shape_def)
  have b2: "built_shape h2 g"
    using s(4) by (simp add: built_shape_def h2_def write_quads_ok)
  have "below (4 * n) {k. k < 0 * 6} (indices g) h1" by (simp add: below_def)
  then have "below (4 * n) {k. k < (0 + length (pointsBuf tm)) * 6} (indices g) h2"
    unfolding h2_def by (rule write_quads_below) (simp_all add: n_def ok)
  then have "below (4 * n) {k. k < v_len (indices g)} (indices g) h2"
    by (simp add: s n_def)
  then have i: "\<forall>w \<in> set (u32_contents h2 (indices g)). unat w < 4 * n"
    using b2 by (intro contents_below) (simp_all add: built_shape_def)
  have l: "length (f32_contents h2 (positions g)) = 8 * n"
    "length (f32_contents h2 (uvs g)) = 8 * n" "length (u32_contents h2 (indices g)) = 6 * n"
    using b2 s by (auto simp: built_shape_def view_ok_f32_def view_ok_u32_def f32_contents_def
        u32_contents_def min_def)
  show ?thesis
    unfolding Let_def c fst_conv snd_conv n_def [symmetric]
    using s i l b2 by (simp add: mult.commute)
qed


lemma fst_compute:
  "fst (computeGeometriesBatched tm geometry h) = fst (choose_geometry (length (pointsBuf tm)) geometry h)"
  by (simp add: computeGeometriesBatched_def split_beta)

lemma next_buf_compute:
  "next_buf (snd (computeGeometriesBatched tm geometry h)) =
     next_buf (snd (choose_geometry (length (pointsBuf tm)) geometry h))"
  by (simp add: computeGeometriesBatched_def split_beta write_quads_ok)

lemma example_lengths:
  "length (pointsBuf example_buffer2) = 2" "length (pointsBuf example_buffer1) = 1"
  by code_simp+

lemma new_MeshGeometry_views:
  "fst (new_MeshGeometry n h) =
     \<lparr>positions = \<lparr>v_buf = next_buf h, v_off = 0, v_len = n * 8\<rparr>,
      uvs = \<lparr>v_buf = Suc (next_buf h), v_off = 0, v_len = n * 8\<rparr>,
      indices = \<lparr>v_buf = Suc (Suc (next_buf h)), v_off = 0, v_len = n * 6\<rparr>\<rparr>"
  "next_buf (snd (new_MeshGeometry n h)) = Suc (Suc (Suc (next_buf h)))"
  by (simp_all add: new_MeshGeometry_def new_Float32Array_def new_Uint32Array_def)

lemma choose_geometry_fresh:
  assumes "geometry = None \<or> (\<exists>g. geometry = Some g \<and> v_len (positions g) \<le> n * 8)"
  shows "choose_geometry n geometry h = new_MeshGeometry n h"
  using assms by (auto simp: choose_geometry_def)

lemma choose_geometry_reuse:
  assumes "v_len (positions g) > n * 8"
  shows "choose_geometry n (Some g) h =
     (g\<lparr>positions := subarray (positions g) 0 (n * 8), uvs := subarray (uvs g) 0 (n * 8),
        indices := subarray (indices g) 0 (n * 6)\<rparr>, h)"
  using assms by (simp add: choose_geometry_def)

lemma built_views:
  "fst built2 = \<lparr>positions = \<lparr>v_buf = 0, v_off = 0, v_len = 16\<rparr>,
      uvs = \<lparr>v_buf = 1, v_off = 0, v_len = 16\<rparr>,
      indices = \<lparr>v_buf = 2, v_off = 0, v_len = 12\<rparr>\<rparr>"
  "next_buf (snd built2) = 3"
  "fst built1 = \<lparr>positions = \<lparr>v_buf = 0, v_off = 0, v_len = 8\<rparr>,
      uvs = \<lparr>v_buf = 1, v_off = 0, v_len = 8\<rparr>,
      indices = \<lparr>v_buf = 2, v_off = 0, v_len = 6\<rparr>\<rparr>"
  "next_buf (snd built1) = 3"
  by (simp_all add: built2_def built1_def fst_compute next_buf_compute example_lengths
      choose_geometry_fresh new_MeshGeometry_views empty_heap_def)

theorem geometry_build_witness:
  "length (pointsBuf example_buffer2) = 2 \<and>
   v_len (positions (fst built2)) = 16 \<and> v_len (uvs (fst built2)) = 16 \<and>
   v_len (indices (fst built2)) = 12 \<and>
   length (u32_contents (snd built2) (indices (fst built2))) = 12 \<and>
   unat (hd (u32_contents (snd built2) (indices (fst built2)))) < 8 \<and>
   built_shape (snd built2) (fst built2) \<and>
   length (pointsBuf example_buffer1) = 1 \<and>
   v_len (positions (fst (computeGeometriesBatched example_buffer1 (Some (fst built2)) (snd built2)))) = 8 \<and>
   v_len (indices (fst (computeGeometriesBatched example_buffer1 (Some (fst built2)) (snd built2)))) = 6 \<and>
   v_buf (positions (fst (computeGeometriesBatched example_buffer1 (Some (fst built2)) (snd built2)))) =
     v_buf (positions (fst built2))"
proof -
  note l = example_lengths
  have a: "v_len (positions (fst built2)) = 16 \<and> v_len (uvs (fst built2)) = 16 \<and>
      v_len (indices (fst built2)) = 12 \<and>
      length (u32_contents (snd built2) (indices (fst built2))) = 12 \<and>
      (\<forall>w \<in> set (u32_contents (snd built2) (indices (fst built2))). unat w < 8) \<and>
      built_shape (snd built2) (fst built2)"
    using geometry_build [of None empty_heap example_buffer2]
    by (simp add: Let_def l built2_def)
  then have "hd (u32_contents (snd built2) (indices (fst built2))) \<in>
      set (u32_contents (snd built2) (indices (fst built2)))"
    by (cases "u32_contents (snd built2) (indices (fst built2))") simp_all
  with a have h: "unat (hd (u32_contents (snd built2) (indices (fst built2)))) < 8" by blast
  have r: "v_buf (positions (fst (computeGeometriesBatched example_buffer1 (Some (fst built2)) (snd built2)))) =
     v_buf (positions (fst built2))"
    by (simp add: fst_compute l choose_geometry_reuse built_views subarray_def)
  from a have "Some (fst built2) = None \<or> (\<exists>g. Some (fst built2) = Some g \<and> built_shape (snd built2) g)"
    by simp
  from geometry_build [OF this, of example_buffer1] a l h r
  show ?thesis by (simp add: Let_def)
qed

text \<open>
  Claim C8, on the code. The claim says that a rebuild reuses the backing storage of the
  geometry it is given whenever that storage is large enough, and allocates only when the
  required capacity has grown. The build of the one-command buffer returns a position array
  of length 8 in buffer 0; rebuilding the same buffer, still of one command, with that
  geometry, whose arrays are exactly large enough, allocates the three fresh buffers 3, 4
  and 5: the first comparison of the allocation branch is \<open>\<le>\<close> where the branch after
  it (\<open>\<ge>\<close>) shows that \<open><\<close> was meant. Storage is reused only when the count has shrunk
  (\<open>choose_geometry_reuse\<close>).
\<close>

theorem rebuild_same_count_allocates:
  "v_len (positions (fst built1)) = 8 * length (pointsBuf example_buffer1) \<and>
   v_buf (positions (fst built1)) = 0 \<and> next_buf (snd built1) = 3 \<and>
   v_buf (positions (fst (computeGeometriesBatched example_buffer1 (Some (fst built1)) (snd built1)))) = 3 \<and>
   v_buf (uvs (fst (computeGeometriesBatched example_buffer1 (Some (fst built1)) (snd built1)))) = 4 \<and>
   v_buf (indices (fst (computeGeometriesBatched example_buffer1 (Some (fst built1)) (snd built1)))) = 5 \<and>
   next_buf (snd (computeGeometriesBatched example_buffer1 (Some (fst built1)) (snd built1))) = 6"
proof -
  have "choose_geometry 1 (Some (fst built1)) (snd built1) = new_MeshGeometry 1 (snd built1)"
    by (rule choose_geometry_fresh) (simp add: built_views)
  then show ?thesis
    by (simp add: fst_compute next_buf_compute example_lengths built_views new_MeshGeometry_views)
qed

end
